theory Spec2Isabelle
  imports Complex_Main "HOL-Library.Word" "HOL-Library.Multiset"
begin

section \<open>Data model of the network monitor (src/main.c)\<close>

text \<open>
  C strings are modelled as \<^typ>\<open>string\<close>: the characters before the terminating NUL.
  The C \<^verbatim>\<open>int\<close> counter \<^verbatim>\<open>consecutive_failures\<close> is a 32-bit word read as a signed
  number (\<open>sint\<close>); \<^verbatim>\<open>++\<close> is addition of 1 in the word, so that it goes from
  \<open>2^31 - 1\<close> to \<open>- 2^31\<close> (C leaves the signed overflow undefined; this is what the
  compiled program does). The \<^verbatim>\<open>float\<close> field \<^verbatim>\<open>flash_timer\<close> only ever receives the
  constant \<^verbatim>\<open>1.0f\<close> from the network thread and is modelled as a \<^typ>\<open>real\<close>; the
  decay applied by the rendering loop is not part of the model.
\<close>

datatype HostStatus = STATUS_SCANNING | STATUS_UP | STATUS_UNSTABLE | STATUS_DOWN

record MonitoredHost =
  ip :: string
  hostname :: string
  status :: HostStatus
  consecutive_failures :: "32 word"
  flash_timer :: real

definition INTERNET_CHECK_IP :: string where
  "INTERNET_CHECK_IP = ''8.8.8.8''"

definition START_HOST :: int where
  "START_HOST = 1"

definition END_HOST :: int where
  "END_HOST = 254"

definition NUM_THREADS :: int where
  "NUM_THREADS = 50"

definition PING_FAIL_THRESHOLD :: int where
  "PING_FAIL_THRESHOLD = 3"

definition COMMON_PORTS :: "int list" where
  "COMMON_PORTS = [21, 22, 23, 80, 443, 445, 3389, 8080]"

subsection \<open>Probing a host\<close>

text \<open>
  \<^verbatim>\<open>check_port\<close> is a TCP connection attempt: its result is decided by the network, so
  it is a parameter of the model, a function from address and port to the outcome of the
  attempt. \<open>probe_ports\<close> is the loop over \<^verbatim>\<open>COMMON_PORTS\<close> that stops at the first
  port that answers (used by the discovery workers and by the monitoring sweep).
\<close>

type_synonym network = "string \<Rightarrow> int \<Rightarrow> bool"

fun probe_ports :: "network \<Rightarrow> string \<Rightarrow> int list \<Rightarrow> bool" where
  "probe_ports check_port a [] = False"
| "probe_ports check_port a (p # ps) =
     (if check_port a p then True else probe_ports check_port a ps)"

subsection \<open>The monitoring sweep (phase 2 of \<^verbatim>\<open>network_thread_main\<close>)\<close>

text \<open>
  \<open>monitor_host\<close> is the body of the loop over the registry: it returns the updated entry
  and whether \<^verbatim>\<open>Mix_PlayChannel\<close> (the alert) was called for it.
\<close>

definition monitor_host :: "network \<Rightarrow> MonitoredHost \<Rightarrow> MonitoredHost \<times> bool" where
  "monitor_host check_port h =
     (let is_online = probe_ports check_port (ip h) COMMON_PORTS;
          old_status = status h;
          (h1, alert) =
            (if is_online then (h\<lparr>status := STATUS_UP, consecutive_failures := 0\<rparr>, False)
             else
               let h' = h\<lparr>consecutive_failures := consecutive_failures h + 1\<rparr> in
               if sint (consecutive_failures h') \<ge> PING_FAIL_THRESHOLD
               then (h'\<lparr>status := STATUS_DOWN\<rparr>, status h' \<noteq> STATUS_DOWN)
               else (h'\<lparr>status := STATUS_UNSTABLE\<rparr>, False))
      in (if old_status \<noteq> status h1 then h1\<lparr>flash_timer := 1\<rparr> else h1, alert))"

text \<open>
  One pass over the registry, entry \<open>i\<close>, \<open>i + 1\<close>, ...: the new registry and the indices of
  the entries for which the alert was raised, in the order of the calls.
\<close>

fun sweep_from :: "network \<Rightarrow> nat \<Rightarrow> MonitoredHost list \<Rightarrow> MonitoredHost list \<times> nat list" where
  "sweep_from check_port i [] = ([], [])"
| "sweep_from check_port i (h # hs) =
     (let (h', alert) = monitor_host check_port h;
          (hs', alerts) = sweep_from check_port (Suc i) hs
      in (h' # hs', (if alert then [i] else []) @ alerts))"

definition monitor_sweep :: "network \<Rightarrow> MonitoredHost list \<Rightarrow> MonitoredHost list \<times> nat list" where
  "monitor_sweep check_port hosts = sweep_from check_port 0 hosts"

text \<open>
  The monitoring loop \<^verbatim>\<open>while (app_is_running)\<close>: one sweep per element of
  \<open>nets\<close>, the state of the network at the time of that sweep. \<open>monitoring\<close> is the
  trace (registry after the sweep, alerts raised in it) and \<open>monitor_state\<close> the registry
  after the last sweep.
\<close>

fun monitoring :: "network list \<Rightarrow> MonitoredHost list \<Rightarrow> (MonitoredHost list \<times> nat list) list" where
  "monitoring [] hosts = []"
| "monitoring (net # nets) hosts =
     (let (hosts', alerts) = monitor_sweep net hosts
      in (hosts', alerts) # monitoring nets hosts')"

definition monitor_state :: "network list \<Rightarrow> MonitoredHost list \<Rightarrow> MonitoredHost list" where
  "monitor_state nets hosts = foldl (\<lambda>hs net. fst (monitor_sweep net hs)) hosts nets"

subsection \<open>String formatting and copying\<close>

text \<open>
  \<open>format_d\<close> is \<^verbatim>\<open>printf\<close>'s \<^verbatim>\<open>%d\<close>; \<open>snprintf_sd n s i\<close> is the string left in
  the buffer by \<^verbatim>\<open>snprintf(buf, n, "%s%d", s, i)\<close>: at most \<open>n - 1\<close> characters.
  \<open>strncpy n src\<close> is the characters \<^verbatim>\<open>strncpy(dst, src, n)\<close> copies; the string is
  terminated inside the first \<open>n\<close> bytes only when \<open>src\<close> is shorter than \<open>n\<close>.
\<close>

definition digit_char :: "nat \<Rightarrow> char" where
  "digit_char d = ''0123456789'' ! d"

fun dec_digits :: "nat \<Rightarrow> string" where
  "dec_digits n =
     (if n < 10 then [digit_char n] else dec_digits (n div 10) @ [digit_char (n mod 10)])"

declare dec_digits.simps [simp del]

definition format_d :: "int \<Rightarrow> string" where
  "format_d i = (if i < 0 then CHR ''-'' # dec_digits (nat (- i)) else dec_digits (nat i))"

definition snprintf_sd :: "nat \<Rightarrow> string \<Rightarrow> int \<Rightarrow> string" where
  "snprintf_sd n s i = take (n - 1) (s @ format_d i)"

definition strncpy :: "nat \<Rightarrow> string \<Rightarrow> string" where
  "strncpy n src = take n src"

subsection \<open>What the platform decides\<close>

text \<open>
  Besides the network, four things are decided outside the program and are parameters
  of the model, collected in a record:
  \<^item> the byte order of the machine;
  \<^item> reverse DNS (\<^verbatim>\<open>inet_pton\<close> followed by \<^verbatim>\<open>getnameinfo\<close> in
    \<^verbatim>\<open>add_host_to_list\<close>): \<open>None\<close> is a non-zero return of \<^verbatim>\<open>getnameinfo\<close>;
  \<^item> what the memory holds behind a \<^verbatim>\<open>hostname\<close> buffer that was left without a
    terminator, up to the next NUL (for the entry of a given address);
  \<^item> what the two uninitialised \<^verbatim>\<open>struct in_addr\<close> locals of \<^verbatim>\<open>compare_hosts\<close>
    hold when it is called on two entries.
\<close>

datatype endianness = LittleEndian | BigEndian

record platform =
  byte_order :: endianness
  getnameinfo :: "string \<Rightarrow> string option"
  hostname_tail :: "string \<Rightarrow> string"
  stack_in_addr :: "MonitoredHost \<Rightarrow> MonitoredHost \<Rightarrow> 32 word \<times> 32 word"

subsection \<open>The registry: \<^verbatim>\<open>add_host_to_list\<close>\<close>

text \<open>
  The registry \<^verbatim>\<open>discovered_hosts\<close> is the list of its entries
  (\<^verbatim>\<open>discovered_hosts_count\<close> is its length); the capacity of the allocation is not
  modelled. The mutex makes every call atomic. The address is copied with
  \<^verbatim>\<open>strncpy(..., 15)\<close> and terminated. An override is copied with
  \<^verbatim>\<open>strncpy(..., sizeof(hostname) - 1)\<close> and not terminated by the code: an override
  shorter than 255 characters brings its own terminator, a longer one leaves the 255
  copied characters followed by whatever the memory holds (\<open>copy_hostname\<close>).
\<close>

primrec host_listed :: "string \<Rightarrow> MonitoredHost list \<Rightarrow> bool" where
  "host_listed a [] = False"
| "host_listed a (h # hs) = (if ip h = a then True else host_listed a hs)"

definition copy_hostname :: "string \<Rightarrow> string \<Rightarrow> string" where
  "copy_hostname tail name = (if length name < 255 then name else strncpy 255 name @ tail)"

definition add_host_to_list ::
  "platform \<Rightarrow> string \<Rightarrow> string option \<Rightarrow> MonitoredHost list \<Rightarrow> MonitoredHost list" where
  "add_host_to_list p a hostname_override hosts =
     (if host_listed a hosts then hosts
      else hosts @
        [\<lparr>ip = strncpy 15 a,
          hostname =
            (case hostname_override of
               Some name \<Rightarrow> copy_hostname (hostname_tail p a) name
             | None \<Rightarrow> (case getnameinfo p a of Some name \<Rightarrow> name | None \<Rightarrow> ''N/A'')),
          status = STATUS_UP,
          consecutive_failures = 0,
          flash_timer = 1\<rparr>])"

subsection \<open>Sorting the registry: \<^verbatim>\<open>compare_hosts\<close> and \<^verbatim>\<open>qsort\<close>\<close>

text \<open>
  \<^verbatim>\<open>inet_pton(AF_INET, ...)\<close> belongs to the C library. It is modelled on its POSIX
  description: the text must be \<^verbatim>\<open>ddd.ddd.ddd.ddd\<close>, each part a decimal number of one
  to three digits between 0 and 255; the result is the four octets in network order, or
  \<open>None\<close> when the text is refused (the call returns 0 and writes nothing).
  Implementations differ on leading zeros; no address used below has one.
\<close>

definition is_digit :: "char \<Rightarrow> bool" where
  "is_digit c = (c \<in> set ''0123456789'')"

definition digit_val :: "char \<Rightarrow> nat" where
  "digit_val c = of_char c - 48"

fun inet_pton4 :: "string \<Rightarrow> nat list \<Rightarrow> nat \<Rightarrow> nat \<Rightarrow> nat list option" where
  "inet_pton4 [] octets cur ndigits =
     (if ndigits > 0 \<and> length octets = 3 then Some (octets @ [cur]) else None)"
| "inet_pton4 (c # cs) octets cur ndigits =
     (if is_digit c then
        (if ndigits \<ge> 3 \<or> cur * 10 + digit_val c > 255 then None
         else inet_pton4 cs octets (cur * 10 + digit_val c) (Suc ndigits))
      else if c = CHR ''.'' \<and> ndigits > 0 \<and> length octets < 3
      then inet_pton4 cs (octets @ [cur]) 0 0
      else None)"

definition inet_pton :: "string \<Rightarrow> nat list option" where
  "inet_pton src = inet_pton4 src [] 0 0"

text \<open>
  \<^verbatim>\<open>s_addr\<close> holds the four octets in network order; \<^verbatim>\<open>compare_hosts\<close> compares
  the two \<^verbatim>\<open>s_addr\<close> fields as unsigned 32-bit integers of the machine, without
  \<^verbatim>\<open>ntohl\<close>. The value read therefore depends on the byte order of the machine.
\<close>

fun s_addr :: "endianness \<Rightarrow> nat list \<Rightarrow> 32 word" where
  "s_addr BigEndian [a, b, c, d] = word_of_nat (a * 2 ^ 24 + b * 2 ^ 16 + c * 2 ^ 8 + d)"
| "s_addr LittleEndian [a, b, c, d] = word_of_nat (d * 2 ^ 24 + c * 2 ^ 16 + b * 2 ^ 8 + a)"
| "s_addr e octets = 0"

text \<open>
  The return value of \<^verbatim>\<open>inet_pton\<close> is ignored: when a text is refused the local
  \<^verbatim>\<open>struct in_addr\<close> keeps what it held, and the comparison goes on with that.
\<close>

definition compare_hosts :: "platform \<Rightarrow> MonitoredHost \<Rightarrow> MonitoredHost \<Rightarrow> int" where
  "compare_hosts p host_a host_b =
     (if hostname host_a = ''INTERNET'' then 1
      else if hostname host_b = ''INTERNET'' then - 1
      else
        (let addr_a = (case inet_pton (ip host_a) of
                         Some octets \<Rightarrow> s_addr (byte_order p) octets
                       | None \<Rightarrow> fst (stack_in_addr p host_a host_b));
             addr_b = (case inet_pton (ip host_b) of
                         Some octets \<Rightarrow> s_addr (byte_order p) octets
                       | None \<Rightarrow> snd (stack_in_addr p host_a host_b))
         in if addr_a < addr_b then - 1
            else if addr_a > addr_b then 1
            else 0))"

text \<open>
  \<^verbatim>\<open>qsort\<close> belongs to the C library, which fixes no algorithm. It is modelled as an
  insertion sort that calls the comparison function. Whatever the algorithm, the result
  is a permutation of the registry; the properties of the registry after discovery are
  therefore stated for every permutation of the result of this sort.
\<close>

fun insert_host :: "platform \<Rightarrow> MonitoredHost \<Rightarrow> MonitoredHost list \<Rightarrow> MonitoredHost list" where
  "insert_host p x [] = [x]"
| "insert_host p x (y # ys) =
     (if compare_hosts p x y \<le> 0 then x # y # ys else y # insert_host p x ys)"

fun qsort_hosts :: "platform \<Rightarrow> MonitoredHost list \<Rightarrow> MonitoredHost list" where
  "qsort_hosts p [] = []"
| "qsort_hosts p (x # xs) = insert_host p x (qsort_hosts p xs)"

subsection \<open>Discovery (phase 1 of \<^verbatim>\<open>network_thread_main\<close>)\<close>

record DiscoveryThreadArgs =
  start_host :: int
  end_host :: int
  subnet :: string

definition hosts_per_thread :: int where
  "hosts_per_thread = (END_HOST - START_HOST + 1) div NUM_THREADS"

definition thread_args :: "string \<Rightarrow> nat \<Rightarrow> DiscoveryThreadArgs" where
  "thread_args active_subnet i =
     \<lparr>start_host = START_HOST + int i * hosts_per_thread,
      end_host =
        (if int i = NUM_THREADS - 1 then END_HOST
         else START_HOST + int i * hosts_per_thread + hosts_per_thread - 1),
      subnet = strncpy 16 active_subnet\<rparr>"

text \<open>The host numbers the loop of \<^verbatim>\<open>discovery_worker\<close> visits, in order.\<close>

definition worker_hosts :: "DiscoveryThreadArgs \<Rightarrow> int list" where
  "worker_hosts args = [start_host args..end_host args]"

text \<open>One iteration of the loop of \<^verbatim>\<open>discovery_worker\<close>, for host number \<open>i\<close>.\<close>

definition discovery_step ::
  "network \<Rightarrow> platform \<Rightarrow> string \<Rightarrow> int \<Rightarrow> MonitoredHost list \<Rightarrow> MonitoredHost list" where
  "discovery_step check_port p sub i hosts =
     (let a = snprintf_sd 16 sub i
      in if probe_ports check_port a COMMON_PORTS
         then add_host_to_list p a None hosts
         else hosts)"

text \<open>
  The fifty workers run concurrently and meet only in \<^verbatim>\<open>add_host_to_list\<close>, which the
  mutex serialises. A run is described by a schedule: \<open>Run w\<close> lets worker \<open>w\<close> perform its
  next loop iteration, \<open>Quit\<close> is the main thread clearing \<^verbatim>\<open>app_is_running\<close>. A worker
  is the list of host numbers it still has to visit together with its copy of the prefix;
  a worker that sees the flag cleared leaves its loop. Thread creation is taken to
  succeed.
\<close>

datatype sched_event = Run nat | Quit

record discovery_state =
  workers :: "(string \<times> int list) list"
  discovered_hosts :: "MonitoredHost list"
  app_is_running :: bool

fun sched_step :: "network \<Rightarrow> platform \<Rightarrow> discovery_state \<Rightarrow> sched_event \<Rightarrow> discovery_state" where
  "sched_step check_port p s Quit = s\<lparr>app_is_running := False\<rparr>"
| "sched_step check_port p s (Run w) =
     (if w < length (workers s) then
        (case workers s ! w of
           (sub, []) \<Rightarrow> s
         | (sub, i # rest) \<Rightarrow>
             if app_is_running s
             then s\<lparr>workers := (workers s)[w := (sub, rest)],
                    discovered_hosts :=
                      discovery_step check_port p sub i (discovered_hosts s)\<rparr>
             else s\<lparr>workers := (workers s)[w := (sub, [])]\<rparr>)
      else s)"

text \<open>
  \<^verbatim>\<open>pthread_join\<close> on every worker: whatever the schedule left undone is run to its
  end, worker after worker.
\<close>

definition finish_worker ::
  "network \<Rightarrow> platform \<Rightarrow> bool \<Rightarrow> MonitoredHost list \<Rightarrow> string \<times> int list \<Rightarrow> MonitoredHost list" where
  "finish_worker check_port p running hosts w =
     (if running
      then foldl (\<lambda>hs i. discovery_step check_port p (fst w) i hs) hosts (snd w)
      else hosts)"

definition join_workers :: "network \<Rightarrow> platform \<Rightarrow> discovery_state \<Rightarrow> MonitoredHost list" where
  "join_workers check_port p s =
     foldl (finish_worker check_port p (app_is_running s))
       (discovered_hosts s) (workers s)"

definition start_workers :: "string \<Rightarrow> discovery_state" where
  "start_workers active_subnet =
     \<lparr>workers =
        map (\<lambda>i. (subnet (thread_args active_subnet i), worker_hosts (thread_args active_subnet i)))
          [0..<nat NUM_THREADS],
      discovered_hosts = [],
      app_is_running = True\<rparr>"

text \<open>The registry when the last worker has been joined.\<close>

definition workers_done ::
  "network \<Rightarrow> platform \<Rightarrow> string \<Rightarrow> sched_event list \<Rightarrow> MonitoredHost list" where
  "workers_done check_port p active_subnet sched =
     join_workers check_port p
       (foldl (sched_step check_port p) (start_workers active_subnet) sched)"

text \<open>
  The registry after the call that adds the sentinel, and at the moment
  \<^verbatim>\<open>discovery_complete\<close> is set, when it has been sorted.
\<close>

definition sentinel_added ::
  "network \<Rightarrow> platform \<Rightarrow> string \<Rightarrow> sched_event list \<Rightarrow> MonitoredHost list" where
  "sentinel_added check_port p active_subnet sched =
     add_host_to_list p INTERNET_CHECK_IP (Some ''INTERNET'')
       (workers_done check_port p active_subnet sched)"

definition discovery ::
  "network \<Rightarrow> platform \<Rightarrow> string \<Rightarrow> sched_event list \<Rightarrow> MonitoredHost list" where
  "discovery check_port p active_subnet sched =
     qsort_hosts p (sentinel_added check_port p active_subnet sched)"

subsection \<open>Start-up: the subnet argument of \<^verbatim>\<open>main\<close>\<close>

text \<open>
  \<open>main\<close> follows \<^verbatim>\<open>main\<close> up to the creation of the network thread
  (\<open>main_after_args\<close> is the part after the argument check): the events are what the
  program has done so far, the result is the exit status, or the prefix in
  \<^verbatim>\<open>active_subnet\<close> with which the network thread starts. \<open>init_ok\<close> is the outcome of
  \<^verbatim>\<open>init_sdl() && load_media()\<close> and \<open>thread_ok\<close> that of \<^verbatim>\<open>pthread_create\<close>.
  The call of \<^verbatim>\<open>WSAStartup\<close>, compiled on Windows only, comes after the argument
  check and is left out.
\<close>

datatype main_event =
    Printf_using_subnet string
  | Printf_invalid_subnet string
  | Init_sdl_load_media
  | Cleanup
  | Network_thread_started string

datatype startup = Exit int | Running string

definition main_after_args ::
  "main_event list \<Rightarrow> string \<Rightarrow> bool \<Rightarrow> bool \<Rightarrow> main_event list \<times> startup" where
  "main_after_args printed active_subnet init_ok thread_ok =
     (if \<not> init_ok then (printed @ [Init_sdl_load_media, Cleanup], Exit 1)
      else if \<not> thread_ok then (printed @ [Init_sdl_load_media, Cleanup], Exit 1)
      else (printed @ [Init_sdl_load_media, Network_thread_started active_subnet],
            Running active_subnet))"

definition main :: "string list \<Rightarrow> bool \<Rightarrow> bool \<Rightarrow> main_event list \<times> startup" where
  "main argv init_ok thread_ok =
     (if length argv > 1 then
        (let len = length (argv ! 1)
         in if len > 0 \<and> len < 16 \<and> (argv ! 1) ! (len - 1) = CHR ''.''
            then main_after_args [Printf_using_subnet (strncpy 15 (argv ! 1))]
                   (strncpy 15 (argv ! 1)) init_ok thread_ok
            else ([Printf_invalid_subnet (argv ! 1)], Exit 1))
      else main_after_args [] [] init_ok thread_ok)"

text \<open>
  The prefix the network thread scans: \<^verbatim>\<open>active_subnet\<close> when it is not empty, else the
  detected prefix (\<open>detected\<close> is the outcome of \<^verbatim>\<open>get_local_ip_and_subnet\<close>), else
  \<^verbatim>\<open>DEFAULT_SUBNET\<close>.
\<close>

definition DEFAULT_SUBNET :: string where
  "DEFAULT_SUBNET = ''192.168.1.''"

definition scanned_subnet :: "string \<Rightarrow> string option \<Rightarrow> string" where
  "scanned_subnet active_subnet detected =
     (if length active_subnet = 0
      then (case detected of None \<Rightarrow> strncpy 15 DEFAULT_SUBNET | Some s \<Rightarrow> s)
      else active_subnet)"

subsection \<open>Notions used to state the properties\<close>

text \<open>
  The number of maximal runs of consecutive \<open>STATUS_DOWN\<close> in a sequence of statuses, and
  the number of failed sweeps at the end of a history of sweep outcomes (\<open>True\<close>: a probe
  succeeded), that is, since the last success.
\<close>

function down_runs :: "HostStatus list \<Rightarrow> nat" where
  "down_runs [] = 0"
| "down_runs (s # ss) =
     (if s = STATUS_DOWN then Suc (down_runs (dropWhile (\<lambda>t. t = STATUS_DOWN) ss))
      else down_runs ss)"
  by pat_completeness auto
termination
  by (relation "measure length") (auto simp: less_Suc_eq_le length_dropWhile_le)

definition failed_since_success :: "bool list \<Rightarrow> nat" where
  "failed_since_success history = length (takeWhile Not (rev history))"

text \<open>
  The 32-bit numeric value of a dotted address (its four octets, most significant first);
  the \<^verbatim>\<open>s_addr\<close> of an entry as the machine reads it; and the order in which
  \<^verbatim>\<open>compare_hosts\<close> puts two entries: the sentinel after every other entry, the others
  by \<^verbatim>\<open>s_addr\<close>.
\<close>

definition ip_value :: "string \<Rightarrow> 32 word option" where
  "ip_value a = map_option (s_addr BigEndian) (inet_pton a)"



section \<open>The monitoring sweep\<close>

lemma sint_increment:
  "sint (w + 1 :: 32 word) = (if sint w = 2147483647 then - 2147483648 else sint w + 1)"
proof -
  have eq: "sint (w + 1) = signed_take_bit 31 (sint w + 1)"
    by (simp add: sint_word_ariths)
  have lo: "- 2147483648 \<le> sint w" using sint_ge [of w] by simp
  have hi: "sint w < 2147483648" using sint_lt [of w] by simp
  show ?thesis
  proof (cases "sint w = 2147483647")
    case True
    then show ?thesis by (simp add: eq)
  next
    case False
    then have "signed_take_bit 31 (sint w + 1) = sint w + 1"
      using lo hi by (intro signed_take_bit_int_eq_self) simp_all
    then show ?thesis using False by (simp add: eq)
  qed
qed

lemma sint_of_nat_small:
  "n < 2147483648 \<Longrightarrow> sint (word_of_nat n :: 32 word) = int n"
  by (simp add: signed_of_nat signed_take_bit_int_eq_self)

lemma sweep_from_hosts:
  "fst (sweep_from net i hs) = map (\<lambda>h. fst (monitor_host net h)) hs"
  by (induction hs arbitrary: i) (simp_all add: split_beta Let_def)

lemma monitor_sweep_length: "length (fst (monitor_sweep net hs)) = length hs"
  by (simp add: monitor_sweep_def sweep_from_hosts)

lemma monitor_sweep_nth:
  "i < length hs \<Longrightarrow> fst (monitor_sweep net hs) ! i = fst (monitor_host net (hs ! i))"
  by (simp add: monitor_sweep_def sweep_from_hosts)

lemma monitor_host_online:
  "probe_ports net (ip h) COMMON_PORTS \<Longrightarrow>
     status (fst (monitor_host net h)) = STATUS_UP \<and>
     consecutive_failures (fst (monitor_host net h)) = 0"
  by (simp add: monitor_host_def Let_def)

lemma monitor_host_offline:
  "\<not> probe_ports net (ip h) COMMON_PORTS \<Longrightarrow>
     consecutive_failures (fst (monitor_host net h)) = consecutive_failures h + 1 \<and>
     status (fst (monitor_host net h)) =
       (if 3 \<le> sint (consecutive_failures h + 1) then STATUS_DOWN else STATUS_UNSTABLE)"
  by (simp add: monitor_host_def Let_def PING_FAIL_THRESHOLD_def)

lemma monitor_host_ip [simp]: "ip (fst (monitor_host net h)) = ip h"
  by (simp add: monitor_host_def Let_def)

lemma monitor_host_hostname [simp]: "hostname (fst (monitor_host net h)) = hostname h"
  by (simp add: monitor_host_def Let_def)

text \<open>
  C1. In a monitoring sweep every registered host is updated as follows: if a port probe
  succeeds its status becomes Up and its failure counter 0, whatever its status was before
  (from Down too, with no Unstable in between); if every probe fails the counter is
  incremented (the 32-bit \<^verbatim>\<open>++\<close>: one more, and from \<open>2^31 - 1\<close> to \<open>- 2^31\<close>), and the
  status becomes Down when the new value is at least 3 and Unstable otherwise.
\<close>

theorem C1_sweep_updates_every_host:
  assumes "i < length hosts"
  shows "length (fst (monitor_sweep net hosts)) = length hosts \<and>
         (probe_ports net (ip (hosts ! i)) COMMON_PORTS \<longrightarrow>
            status (fst (monitor_sweep net hosts) ! i) = STATUS_UP \<and>
            consecutive_failures (fst (monitor_sweep net hosts) ! i) = 0) \<and>
         (\<not> probe_ports net (ip (hosts ! i)) COMMON_PORTS \<longrightarrow>
            consecutive_failures (fst (monitor_sweep net hosts) ! i)
              = consecutive_failures (hosts ! i) + 1 \<and>
            sint (consecutive_failures (fst (monitor_sweep net hosts) ! i))
              = (if sint (consecutive_failures (hosts ! i)) = 2147483647 then - 2147483648
                 else sint (consecutive_failures (hosts ! i)) + 1) \<and>
            status (fst (monitor_sweep net hosts) ! i)
              = (if 3 \<le> sint (consecutive_failures (fst (monitor_sweep net hosts) ! i))
                 then STATUS_DOWN else STATUS_UNSTABLE))"
  using assms monitor_host_online [of net "hosts ! i"] monitor_host_offline [of net "hosts ! i"]
    sint_increment [of "consecutive_failures (hosts ! i)"]
  by (simp add: monitor_sweep_length monitor_sweep_nth)

theorem C1_sweep_updates_every_host_witness:
  "(0 < length [\<lparr>ip = ''10.0.0.5'', hostname = ''a'', status = STATUS_DOWN, consecutive_failures = 7, flash_timer = 0\<rparr>] \<and>
    probe_ports (\<lambda>a p. p = 22) ''10.0.0.5'' COMMON_PORTS \<and>
    status (fst (monitor_sweep (\<lambda>a p. p = 22)
      [\<lparr>ip = ''10.0.0.5'', hostname = ''a'', status = STATUS_DOWN, consecutive_failures = 7, flash_timer = 0\<rparr>]) ! 0) = STATUS_UP \<and>
    consecutive_failures (fst (monitor_sweep (\<lambda>a p. p = 22)
      [\<lparr>ip = ''10.0.0.5'', hostname = ''a'', status = STATUS_DOWN, consecutive_failures = 7, flash_timer = 0\<rparr>]) ! 0) = 0) \<and>
   (0 < length [\<lparr>ip = ''10.0.0.9'', hostname = ''b'', status = STATUS_UNSTABLE, consecutive_failures = 2, flash_timer = 0\<rparr>] \<and>
    \<not> probe_ports (\<lambda>a p. False) ''10.0.0.9'' COMMON_PORTS \<and>
    status (fst (monitor_sweep (\<lambda>a p. False)
      [\<lparr>ip = ''10.0.0.9'', hostname = ''b'', status = STATUS_UNSTABLE, consecutive_failures = 2, flash_timer = 0\<rparr>]) ! 0) = STATUS_DOWN \<and>
    consecutive_failures (fst (monitor_sweep (\<lambda>a p. False)
      [\<lparr>ip = ''10.0.0.9'', hostname = ''b'', status = STATUS_UNSTABLE, consecutive_failures = 2, flash_timer = 0\<rparr>]) ! 0) = 3) \<and>
   (0 < length [\<lparr>ip = ''10.0.0.9'', hostname = ''b'', status = STATUS_DOWN, consecutive_failures = 2147483647, flash_timer = 0\<rparr>] \<and>
    sint (2147483647 :: 32 word) = 2147483647 \<and>
    status (fst (monitor_sweep (\<lambda>a p. False)
      [\<lparr>ip = ''10.0.0.9'', hostname = ''b'', status = STATUS_DOWN, consecutive_failures = 2147483647, flash_timer = 0\<rparr>]) ! 0) = STATUS_UNSTABLE \<and>
    sint (consecutive_failures (fst (monitor_sweep (\<lambda>a p. False)
      [\<lparr>ip = ''10.0.0.9'', hostname = ''b'', status = STATUS_DOWN, consecutive_failures = 2147483647, flash_timer = 0\<rparr>]) ! 0)) = - 2147483648)"
  using C1_sweep_updates_every_host [of 0 "[\<lparr>ip = ''10.0.0.5'', hostname = ''a'', status = STATUS_DOWN, consecutive_failures = 7, flash_timer = 0\<rparr>]" "\<lambda>a p. p = 22"]
    C1_sweep_updates_every_host [of 0 "[\<lparr>ip = ''10.0.0.9'', hostname = ''b'', status = STATUS_UNSTABLE, consecutive_failures = 2, flash_timer = 0\<rparr>]" "\<lambda>a p. False"]
    C1_sweep_updates_every_host [of 0 "[\<lparr>ip = ''10.0.0.9'', hostname = ''b'', status = STATUS_DOWN, consecutive_failures = 2147483647, flash_timer = 0\<rparr>]" "\<lambda>a p. False"]
  by (simp add: COMMON_PORTS_def)

section \<open>Alerts\<close>

lemma monitor_host_alert:
  "snd (monitor_host net h) \<longleftrightarrow>
     status h \<noteq> STATUS_DOWN \<and> status (fst (monitor_host net h)) = STATUS_DOWN"
  by (simp add: monitor_host_def Let_def)

lemma sweep_from_alerts:
  "count_list (snd (sweep_from net b hs)) j =
     (if b \<le> j \<and> j < b + length hs \<and> snd (monitor_host net (hs ! (j - b))) then 1 else 0)"
proof (induction hs arbitrary: b)
  case Nil
  then show ?case by simp
next
  case (Cons h hs)
  show ?case
    using Cons [of "Suc b"]
    by (auto simp add: split_beta Let_def Suc_diff_le nth_Cons')
qed

lemma monitor_sweep_alerts:
  "i < length hs \<Longrightarrow>
     count_list (snd (monitor_sweep net hs)) i =
       (if status (hs ! i) \<noteq> STATUS_DOWN \<and> status (fst (monitor_sweep net hs) ! i) = STATUS_DOWN
        then 1 else 0)"
  by (simp add: monitor_sweep_nth monitor_host_alert [symmetric])
     (simp add: monitor_sweep_def sweep_from_alerts)

lemma monitor_state_Nil [simp]: "monitor_state [] hs = hs"
  by (simp add: monitor_state_def)

lemma monitor_state_Cons [simp]:
  "monitor_state (net # nets) hs = monitor_state nets (fst (monitor_sweep net hs))"
  by (simp add: monitor_state_def)

lemma monitor_state_snoc:
  "monitor_state (nets @ [net]) hs = fst (monitor_sweep net (monitor_state nets hs))"
  by (simp add: monitor_state_def)

lemma monitor_state_length [simp]: "length (monitor_state nets hs) = length hs"
  by (induction nets arbitrary: hs) (simp_all add: monitor_sweep_length)

lemma monitoring_length [simp]: "length (monitoring nets hs) = length nets"
  by (induction nets arbitrary: hs) (simp_all add: split_beta)

lemma monitoring_nth:
  "k < length nets \<Longrightarrow>
     monitoring nets hs ! k = monitor_sweep (nets ! k) (monitor_state (take k nets) hs)"
proof (induction nets arbitrary: hs k)
  case Nil
  then show ?case by simp
next
  case (Cons net nets)
  then show ?case by (cases k) (simp_all add: split_beta)
qed

lemma monitor_state_take_Suc:
  "k < length nets \<Longrightarrow>
     monitor_state (take (Suc k) nets) hs = fst (monitor_sweep (nets ! k) (monitor_state (take k nets) hs))"
  by (simp add: take_Suc_conv_app_nth monitor_state_snoc)

lemma down_runs_Cons2:
  "down_runs (s # t # r) =
     down_runs (t # r) + (if s = STATUS_DOWN \<and> t \<noteq> STATUS_DOWN then 1 else 0)"
  by simp

lemma alerts_total:
  "i < length hs \<Longrightarrow>
     (\<Sum>(hs', al) \<leftarrow> monitoring nets hs. count_list al i) + (if status (hs ! i) = STATUS_DOWN then 1 else 0)
       = down_runs (status (hs ! i) # map (\<lambda>(hs', al). status (hs' ! i)) (monitoring nets hs))"
proof (induction nets arbitrary: hs)
  case Nil
  then show ?case by simp
next
  case (Cons net nets)
  let ?hs' = "fst (monitor_sweep net hs)"
  let ?rest = "\<Sum>(hs', al) \<leftarrow> monitoring nets ?hs'. count_list al i"
  let ?trace = "map (\<lambda>(hs', al). status (hs' ! i)) (monitoring nets ?hs')"
  have len: "i < length ?hs'" using Cons.prems by (simp add: monitor_sweep_length)
  have IH: "?rest + (if status (?hs' ! i) = STATUS_DOWN then 1 else 0)
       = down_runs (status (?hs' ! i) # ?trace)"
    by (rule Cons.IH [OF len])
  have al: "count_list (snd (monitor_sweep net hs)) i =
       (if status (hs ! i) \<noteq> STATUS_DOWN \<and> status (?hs' ! i) = STATUS_DOWN then 1 else 0)"
    by (rule monitor_sweep_alerts [OF Cons.prems])
  have sum: "(\<Sum>(hs', al) \<leftarrow> monitoring (net # nets) hs. count_list al i)
       = count_list (snd (monitor_sweep net hs)) i + ?rest"
    by (simp add: split_beta)
  have trace: "map (\<lambda>(hs', al). status (hs' ! i)) (monitoring (net # nets) hs)
       = status (?hs' ! i) # ?trace"
    by (simp add: split_beta)
  have runs: "down_runs (status (hs ! i) # status (?hs' ! i) # ?trace) =
       down_runs (status (?hs' ! i) # ?trace)
         + (if status (hs ! i) = STATUS_DOWN \<and> status (?hs' ! i) \<noteq> STATUS_DOWN then 1 else 0)"
    by (rule down_runs_Cons2)
  show ?case
    unfolding sum trace runs al IH [symmetric]
    by simp
qed

text \<open>
  C2. For every host and every sequence of monitoring sweeps the alert is raised exactly
  once per contiguous run of Down: in a sweep it is raised for the host once if the host
  was not Down before the sweep and is Down after it, and not at all otherwise (so never
  while the host stays Down); and over the whole sequence the number of alerts for the
  host is the number of maximal runs of Down in its sequence of statuses, when the host
  is not Down at the start (as every host is when discovery completes); a run that was
  already under way before the first sweep raises no alert.
\<close>

theorem C2_alert_once_per_down_run:
  assumes "i < length hosts"
  shows "(\<forall>k < length nets.
            count_list (snd (monitoring nets hosts ! k)) i =
              (if status (monitor_state (take k nets) hosts ! i) \<noteq> STATUS_DOWN \<and>
                  status (monitor_state (take (Suc k) nets) hosts ! i) = STATUS_DOWN
               then 1 else 0)) \<and>
         (status (hosts ! i) \<noteq> STATUS_DOWN \<longrightarrow>
            (\<Sum>(hs, al) \<leftarrow> monitoring nets hosts. count_list al i)
              = down_runs (map (\<lambda>(hs, al). status (hs ! i)) (monitoring nets hosts))) \<and>
         (\<Sum>(hs, al) \<leftarrow> monitoring nets hosts. count_list al i)
            + (if status (hosts ! i) = STATUS_DOWN then 1 else 0)
           = down_runs (status (hosts ! i) # map (\<lambda>(hs, al). status (hs ! i)) (monitoring nets hosts))"
proof -
  have each: "count_list (snd (monitoring nets hosts ! k)) i =
              (if status (monitor_state (take k nets) hosts ! i) \<noteq> STATUS_DOWN \<and>
                  status (monitor_state (take (Suc k) nets) hosts ! i) = STATUS_DOWN
               then 1 else 0)" if k: "k < length nets" for k
  proof -
    have "i < length (monitor_state (take k nets) hosts)" using assms by simp
    then show ?thesis
      using k by (simp only: monitoring_nth monitor_state_take_Suc monitor_sweep_alerts)
  qed
  have total: "(\<Sum>(hs, al) \<leftarrow> monitoring nets hosts. count_list al i)
            + (if status (hosts ! i) = STATUS_DOWN then 1 else 0)
           = down_runs (status (hosts ! i) # map (\<lambda>(hs, al). status (hs ! i)) (monitoring nets hosts))"
    by (rule alerts_total [OF assms])
  have fresh: "(\<Sum>(hs, al) \<leftarrow> monitoring nets hosts. count_list al i)
              = down_runs (map (\<lambda>(hs, al). status (hs ! i)) (monitoring nets hosts))"
    if "status (hosts ! i) \<noteq> STATUS_DOWN"
    using total that by simp
  show ?thesis using each total fresh by blast
qed

theorem C2_alert_once_per_down_run_witness:
  "(0::nat) < length [\<lparr>ip = ''10.0.0.5'', hostname = ''box'', status = STATUS_UP,
                       consecutive_failures = 0, flash_timer = 1\<rparr>] \<and>
   STATUS_UP \<noteq> STATUS_DOWN \<and>
   map snd (monitoring
      [\<lambda>a p. False, \<lambda>a p. False, \<lambda>a p. False, \<lambda>a p. False, \<lambda>a p. True,
       \<lambda>a p. False, \<lambda>a p. False, \<lambda>a p. False]
      [\<lparr>ip = ''10.0.0.5'', hostname = ''box'', status = STATUS_UP,
        consecutive_failures = 0, flash_timer = 1\<rparr>])
     = [[], [], [0], [], [], [], [], [0]] \<and>
   map (\<lambda>(hs, al). status (hs ! 0)) (monitoring
      [\<lambda>a p. False, \<lambda>a p. False, \<lambda>a p. False, \<lambda>a p. False, \<lambda>a p. True,
       \<lambda>a p. False, \<lambda>a p. False, \<lambda>a p. False]
      [\<lparr>ip = ''10.0.0.5'', hostname = ''box'', status = STATUS_UP,
        consecutive_failures = 0, flash_timer = 1\<rparr>])
     = [STATUS_UNSTABLE, STATUS_UNSTABLE, STATUS_DOWN, STATUS_DOWN, STATUS_UP,
        STATUS_UNSTABLE, STATUS_UNSTABLE, STATUS_DOWN] \<and>
   down_runs (map (\<lambda>(hs, al). status (hs ! 0)) (monitoring
      [\<lambda>a p. False, \<lambda>a p. False, \<lambda>a p. False, \<lambda>a p. False, \<lambda>a p. True,
       \<lambda>a p. False, \<lambda>a p. False, \<lambda>a p. False]
      [\<lparr>ip = ''10.0.0.5'', hostname = ''box'', status = STATUS_UP,
        consecutive_failures = 0, flash_timer = 1\<rparr>])) = 2"
  using C2_alert_once_per_down_run [of 0
      "[\<lparr>ip = ''10.0.0.5'', hostname = ''box'', status = STATUS_UP,
         consecutive_failures = 0, flash_timer = 1\<rparr>]"
      "[\<lambda>a p. False, \<lambda>a p. False, \<lambda>a p. False, \<lambda>a p. False, \<lambda>a p. True,
        \<lambda>a p. False, \<lambda>a p. False, \<lambda>a p. False]"]
  by (simp add: monitor_sweep_def monitor_host_def COMMON_PORTS_def PING_FAIL_THRESHOLD_def)

section \<open>The registry\<close>

lemma host_listed_iff: "host_listed a hs \<longleftrightarrow> a \<in> ip ` set hs"
  by (induction hs) auto

lemma add_host_to_list_listed:
  "a \<in> ip ` set hs \<Longrightarrow> add_host_to_list pf a ov hs = hs"
  by (simp add: add_host_to_list_def host_listed_iff)

lemma add_host_to_list_new:
  "a \<notin> ip ` set hs \<Longrightarrow>
     add_host_to_list pf a ov hs = hs @
       [\<lparr>ip = take 15 a,
         hostname = (case ov of Some name \<Rightarrow> copy_hostname (hostname_tail pf a) name
                     | None \<Rightarrow> (case getnameinfo pf a of Some name \<Rightarrow> name | None \<Rightarrow> ''N/A'')),
         status = STATUS_UP, consecutive_failures = 0, flash_timer = 1\<rparr>]"
  by (simp add: add_host_to_list_def host_listed_iff strncpy_def split: option.splits)

lemma add_host_to_list_fresh:
  "\<forall>h\<in>set hs. status h = STATUS_UP \<and> consecutive_failures h = 0 \<Longrightarrow>
     \<forall>h\<in>set (add_host_to_list pf a ov hs). status h = STATUS_UP \<and> consecutive_failures h = 0"
  by (cases "a \<in> ip ` set hs") (simp_all add: add_host_to_list_listed add_host_to_list_new)

lemma add_host_to_list_distinct:
  assumes "distinct (map ip hs)" and "length a \<le> 15"
  shows "distinct (map ip (add_host_to_list pf a ov hs))"
proof (cases "a \<in> ip ` set hs")
  case True
  then show ?thesis using assms by (simp add: add_host_to_list_listed)
next
  case False
  then show ?thesis using assms by (simp add: add_host_to_list_new)
qed

lemma add_host_to_list_ip_length:
  "\<forall>h\<in>set hs. length (ip h) \<le> 15 \<Longrightarrow>
     \<forall>h\<in>set (add_host_to_list pf a ov hs). length (ip h) \<le> 15"
  by (cases "a \<in> ip ` set hs") (simp_all add: add_host_to_list_listed add_host_to_list_new)

lemma snprintf_sd_length: "length (snprintf_sd 16 s i) \<le> 15"
  by (simp add: snprintf_sd_def)

section \<open>Discovery\<close>

lemma hosts_per_thread_eq: "hosts_per_thread = 5"
  by (simp add: hosts_per_thread_def START_HOST_def END_HOST_def NUM_THREADS_def)

lemma worker_hosts_range:
  "i < 50 \<Longrightarrow> set (worker_hosts (thread_args s i)) \<subseteq> {1..254}"
  by (auto simp add: worker_hosts_def thread_args_def hosts_per_thread_eq
        START_HOST_def END_HOST_def NUM_THREADS_def)

lemma foldl_discovery_step_invariant:
  assumes step: "\<And>hosts i. Q hosts \<Longrightarrow> 1 \<le> i \<Longrightarrow> i \<le> 254 \<Longrightarrow> Q (discovery_step cp pf S i hosts)"
  shows "set rem \<subseteq> {1..254} \<Longrightarrow> Q hosts \<Longrightarrow>
           Q (foldl (\<lambda>hs i. discovery_step cp pf S i hs) hosts rem)"
  by (induction rem arbitrary: hosts) (simp_all add: step)

lemma join_workers_invariant:
  assumes step: "\<And>hosts i. Q hosts \<Longrightarrow> 1 \<le> i \<Longrightarrow> i \<le> 254 \<Longrightarrow> Q (discovery_step cp pf S i hosts)"
  shows "\<forall>w\<in>set ws. fst w = S \<and> set (snd w) \<subseteq> {1..254} \<Longrightarrow> Q hosts \<Longrightarrow>
           Q (foldl (finish_worker cp pf running) hosts ws)"
proof (induction ws arbitrary: hosts)
  case Nil
  then show ?case by simp
next
  case (Cons w ws)
  have "Q (finish_worker cp pf running hosts w)"
    using Cons.prems foldl_discovery_step_invariant [of Q cp pf S "snd w" hosts, OF step]
    by (simp add: finish_worker_def)
  then show ?case using Cons by simp
qed

lemma sched_step_invariant:
  assumes step: "\<And>hosts i. Q hosts \<Longrightarrow> 1 \<le> i \<Longrightarrow> i \<le> 254 \<Longrightarrow> Q (discovery_step cp pf S i hosts)"
    and ws: "\<forall>w\<in>set (workers s). fst w = S \<and> set (snd w) \<subseteq> {1..254}"
    and Q: "Q (discovered_hosts s)"
  shows "(\<forall>w\<in>set (workers (sched_step cp pf s ev)). fst w = S \<and> set (snd w) \<subseteq> {1..254}) \<and>
         Q (discovered_hosts (sched_step cp pf s ev))"
proof (cases ev)
  case Quit
  then show ?thesis using ws Q by simp
next
  case (Run w)
  show ?thesis
  proof (cases "w < length (workers s)")
    case False
    then show ?thesis using Run ws Q by simp
  next
    case True
    obtain sub rem where w: "workers s ! w = (sub, rem)" by (cases "workers s ! w")
    have mem: "(sub, rem) \<in> set (workers s)" using nth_mem [OF True] w by simp
    have "fst (sub, rem) = S \<and> set (snd (sub, rem)) \<subseteq> {1..254}" using ws mem by blast
    then have sub: "sub = S" and rem: "set rem \<subseteq> {1..254}" by simp_all
    show ?thesis
    proof (cases rem)
      case Nil
      then show ?thesis using Run True w ws Q by simp
    next
      case (Cons i rest)
      have i: "1 \<le> i" "i \<le> 254" and rest: "set rest \<subseteq> {1..254}" using rem Cons by auto
      have upd: "\<forall>x\<in>set ((workers s)[w := (S, xs)]). fst x = S \<and> set (snd x) \<subseteq> {1..254}"
        if "set xs \<subseteq> {1..254}" for xs
      proof
        fix x assume "x \<in> set ((workers s)[w := (S, xs)])"
        then have "x = (S, xs) \<or> x \<in> set (workers s)"
          using set_update_subset_insert [of "workers s" w "(S, xs)"] by auto
        then show "fst x = S \<and> set (snd x) \<subseteq> {1..254}" using ws that by auto
      qed
      show ?thesis
        using Run True w Cons sub upd [OF rest] upd [of "[]"] Q step [OF Q i]
        by simp
    qed
  qed
qed

lemma foldl_sched_step_invariant:
  assumes step: "\<And>hosts i. Q hosts \<Longrightarrow> 1 \<le> i \<Longrightarrow> i \<le> 254 \<Longrightarrow> Q (discovery_step cp pf S i hosts)"
  shows "(\<forall>w\<in>set (workers s). fst w = S \<and> set (snd w) \<subseteq> {1..254}) \<Longrightarrow> Q (discovered_hosts s) \<Longrightarrow>
         (\<forall>w\<in>set (workers (foldl (sched_step cp pf) s sched)). fst w = S \<and> set (snd w) \<subseteq> {1..254}) \<and>
         Q (discovered_hosts (foldl (sched_step cp pf) s sched))"
proof (induction sched arbitrary: s)
  case Nil
  then show ?case by simp
next
  case (Cons ev sched)
  have "(\<forall>w\<in>set (workers (sched_step cp pf s ev)). fst w = S \<and> set (snd w) \<subseteq> {1..254}) \<and>
         Q (discovered_hosts (sched_step cp pf s ev))"
  proof (rule sched_step_invariant [of Q cp pf S])
    show "Q (discovery_step cp pf S i hosts)" if "Q hosts" "1 \<le> i" "i \<le> 254" for hosts i
      using that by (rule step)
    show "\<forall>w\<in>set (workers s). fst w = S \<and> set (snd w) \<subseteq> {1..254}"
      using Cons.prems(1) .
    show "Q (discovered_hosts s)"
      using Cons.prems(2) .
  qed
  then show ?case
    unfolding foldl_Cons
  proof (intro Cons.IH)
    assume st: "(\<forall>w\<in>set (workers (sched_step cp pf s ev)). fst w = S \<and> set (snd w) \<subseteq> {1..254}) \<and>
         Q (discovered_hosts (sched_step cp pf s ev))"
    show "\<forall>w\<in>set (workers (sched_step cp pf s ev)). fst w = S \<and> set (snd w) \<subseteq> {1..254}"
      using st by (rule conjunct1)
    show "Q (discovered_hosts (sched_step cp pf s ev))"
      using st by (rule conjunct2)
  qed
qed

lemma start_workers_ranges:
  "\<forall>w\<in>set (workers (start_workers active)).
     fst w = strncpy 16 active \<and> set (snd w) \<subseteq> {1..254}"
proof
  fix w assume "w \<in> set (workers (start_workers active))"
  then obtain i where i: "i < nat NUM_THREADS"
    and w: "w = (subnet (thread_args active i), worker_hosts (thread_args active i))"
    by (auto simp add: start_workers_def)
  have "i < 50" using i by (simp add: NUM_THREADS_def)
  then show "fst w = strncpy 16 active \<and> set (snd w) \<subseteq> {1..254}"
    using worker_hosts_range [of i active] by (simp add: w thread_args_def)
qed

lemma workers_done_invariant:
  assumes init: "Q []"
    and step: "\<And>hosts i. Q hosts \<Longrightarrow> 1 \<le> i \<Longrightarrow> i \<le> 254 \<Longrightarrow>
                 Q (discovery_step cp pf (strncpy 16 active) i hosts)"
  shows "Q (workers_done cp pf active sched)"
proof -
  let ?S = "strncpy 16 active"
  have ws0: "\<forall>w\<in>set (workers (start_workers active)). fst w = ?S \<and> set (snd w) \<subseteq> {1..254}"
    by (rule start_workers_ranges)
  have Q0: "Q (discovered_hosts (start_workers active))"
    using init by (simp add: start_workers_def)
  have "(\<forall>w\<in>set (workers (foldl (sched_step cp pf) (start_workers active) sched)).
            fst w = ?S \<and> set (snd w) \<subseteq> {1..254}) \<and>
        Q (discovered_hosts (foldl (sched_step cp pf) (start_workers active) sched))"
    by (rule foldl_sched_step_invariant [of Q cp pf ?S, OF step ws0 Q0])
  then show ?thesis
    unfolding workers_done_def join_workers_def
    by (intro join_workers_invariant [of Q cp pf ?S, OF step]) auto
qed

lemma insert_host_mset: "mset (insert_host pf x ys) = add_mset x (mset ys)"
  by (induction ys) simp_all

lemma qsort_hosts_mset: "mset (qsort_hosts pf xs) = mset xs"
  by (induction xs) (simp_all add: insert_host_mset)

lemma discovery_mset:
  "mset (discovery cp pf active sched) = mset (sentinel_added cp pf active sched)"
  by (simp add: discovery_def qsort_hosts_mset)

lemma discovery_step_fresh:
  assumes "\<forall>h\<in>set hosts. status h = STATUS_UP \<and> consecutive_failures h = 0"
  shows "\<forall>h\<in>set (discovery_step cp pf s i hosts). status h = STATUS_UP \<and> consecutive_failures h = 0"
  using assms add_host_to_list_fresh [of hosts pf "snprintf_sd 16 s i" None]
  by (simp add: discovery_step_def Let_def)

lemma workers_done_fresh:
  "\<forall>h\<in>set (workers_done cp pf active sched). status h = STATUS_UP \<and> consecutive_failures h = 0"
proof (rule workers_done_invariant
        [where Q = "\<lambda>hosts. \<forall>h\<in>set hosts. status h = STATUS_UP \<and> consecutive_failures h = 0"])
  show "\<forall>h\<in>set []. status h = STATUS_UP \<and> consecutive_failures h = 0" by simp
next
  fix hosts :: "MonitoredHost list" and i :: int
  assume "\<forall>h\<in>set hosts. status h = STATUS_UP \<and> consecutive_failures h = 0"
  then show "\<forall>h\<in>set (discovery_step cp pf (strncpy 16 active) i hosts).
               status h = STATUS_UP \<and> consecutive_failures h = 0"
    by (rule discovery_step_fresh)
qed

lemma discovery_step_distinct:
  assumes "distinct (map ip hosts) \<and> (\<forall>h\<in>set hosts. length (ip h) \<le> 15)"
  shows "distinct (map ip (discovery_step cp pf s i hosts)) \<and>
         (\<forall>h\<in>set (discovery_step cp pf s i hosts). length (ip h) \<le> 15)"
  using assms add_host_to_list_distinct [of hosts "snprintf_sd 16 s i" pf None]
    add_host_to_list_ip_length [of hosts pf "snprintf_sd 16 s i" None]
  by (simp add: discovery_step_def Let_def snprintf_sd_length)

lemma workers_done_distinct:
  "distinct (map ip (workers_done cp pf active sched)) \<and>
   (\<forall>h\<in>set (workers_done cp pf active sched). length (ip h) \<le> 15)"
proof (rule workers_done_invariant
        [where Q = "\<lambda>hosts. distinct (map ip hosts) \<and> (\<forall>h\<in>set hosts. length (ip h) \<le> 15)"])
  show "distinct (map ip []) \<and> (\<forall>h\<in>set []. length (ip h) \<le> 15)" by simp
next
  fix hosts :: "MonitoredHost list" and i :: int
  assume "distinct (map ip hosts) \<and> (\<forall>h\<in>set hosts. length (ip h) \<le> 15)"
  then show "distinct (map ip (discovery_step cp pf (strncpy 16 active) i hosts)) \<and>
             (\<forall>h\<in>set (discovery_step cp pf (strncpy 16 active) i hosts). length (ip h) \<le> 15)"
    by (rule discovery_step_distinct)
qed

lemma sentinel_added_fresh:
  "\<forall>h\<in>set (sentinel_added cp pf active sched).
     status h = STATUS_UP \<and> consecutive_failures h = 0"
  unfolding sentinel_added_def by (rule add_host_to_list_fresh [OF workers_done_fresh])

lemma sentinel_added_distinct: "distinct (map ip (sentinel_added cp pf active sched))"
  unfolding sentinel_added_def
  using workers_done_distinct
  by (intro add_host_to_list_distinct) (simp_all add: INTERNET_CHECK_IP_def)

lemma discovery_fresh:
  assumes "mset r = mset (discovery cp pf active sched)"
  shows "\<forall>h\<in>set r. status h = STATUS_UP \<and> consecutive_failures h = 0"
proof -
  have "mset r = mset (sentinel_added cp pf active sched)"
    using assms by (simp add: discovery_mset)
  then have "set r = set (sentinel_added cp pf active sched)"
    by (rule mset_eq_setD)
  then show ?thesis
    using sentinel_added_fresh [of cp pf active sched] by simp
qed

lemma discovery_distinct:
  assumes "mset r = mset (discovery cp pf active sched)"
  shows "distinct (map ip r)"
proof -
  have "mset r = mset (sentinel_added cp pf active sched)"
    using assms by (simp add: discovery_mset)
  then have "mset (map ip r) = mset (map ip (sentinel_added cp pf active sched))"
    by simp
  then show ?thesis
    using sentinel_added_distinct [of cp pf active sched] mset_eq_imp_distinct_iff by blast
qed

section \<open>The failure counter\<close>

lemma failed_since_success_snoc:
  "failed_since_success (history @ [b]) = (if b then 0 else Suc (failed_since_success history))"
  by (simp add: failed_since_success_def)

lemma failed_since_success_replicate:
  "\<not> probe_ports net a COMMON_PORTS \<Longrightarrow>
     failed_since_success (map (\<lambda>net. probe_ports net a COMMON_PORTS) (replicate N net)) = N"
  by (simp add: failed_since_success_def takeWhile_replicate)

lemma monitor_state_ip: "i < length hs \<Longrightarrow> ip (monitor_state nets hs ! i) = ip (hs ! i)"
proof (induction nets arbitrary: hs)
  case Nil
  then show ?case by simp
next
  case (Cons net nets)
  then show ?case by (simp add: monitor_sweep_length monitor_sweep_nth)
qed

lemma monitor_state_counts:
  assumes "i < length hs" and "status (hs ! i) = STATUS_UP" and "consecutive_failures (hs ! i) = 0"
    and "n = failed_since_success (map (\<lambda>net. probe_ports net (ip (hs ! i)) COMMON_PORTS) nets)"
  shows "consecutive_failures (monitor_state nets hs ! i) = word_of_nat n \<and>
         status (monitor_state nets hs ! i)
           = (if n = 0 then STATUS_UP
              else if 3 \<le> sint (word_of_nat n :: 32 word) then STATUS_DOWN else STATUS_UNSTABLE)"
  using assms(4)
proof (induction nets arbitrary: n rule: rev_induct)
  case Nil
  then show ?case using assms(1-3) by (simp add: failed_since_success_def)
next
  case (snoc net nets)
  let ?h = "monitor_state nets hs ! i"
  let ?m = "failed_since_success (map (\<lambda>net. probe_ports net (ip (hs ! i)) COMMON_PORTS) nets)"
  have len: "i < length (monitor_state nets hs)" using assms(1) by simp
  have ip: "ip ?h = ip (hs ! i)" using assms(1) by (simp add: monitor_state_ip)
  have nth: "monitor_state (nets @ [net]) hs ! i = fst (monitor_host net ?h)"
    using len by (simp add: monitor_state_snoc monitor_sweep_nth)
  have IH: "consecutive_failures ?h = word_of_nat ?m" using snoc.IH [of ?m] by simp
  show ?case
  proof (cases "probe_ports net (ip (hs ! i)) COMMON_PORTS")
    case True
    then have "n = 0" using snoc.prems by (simp add: failed_since_success_snoc)
    then show ?thesis
      using True monitor_host_online [of net ?h] ip by (simp add: nth)
  next
    case False
    then have n: "n = Suc ?m" using snoc.prems by (simp add: failed_since_success_snoc)
    have "consecutive_failures ?h + 1 = word_of_nat n" by (simp add: IH n)
    then show ?thesis
      using False monitor_host_offline [of net ?h] ip by (simp add: nth n ac_simps)
  qed
qed

lemma monitor_state_all_failed:
  assumes "i < length hs" and "status (hs ! i) = STATUS_UP" and "consecutive_failures (hs ! i) = 0"
    and "\<not> probe_ports net (ip (hs ! i)) COMMON_PORTS" and "N \<noteq> 0"
  shows "status (monitor_state (replicate N net) hs ! i)
           = (if 3 \<le> sint (word_of_nat N :: 32 word) then STATUS_DOWN else STATUS_UNSTABLE)"
  using monitor_state_counts [OF assms(1-3), of N "replicate N net"]
    failed_since_success_replicate [OF assms(4), of N] assms(5)
  by simp

text \<open>
  C3 as stated fails: the failure counter is a 32-bit \<^verbatim>\<open>int\<close>. A host found by
  discovery that then fails \<open>2^31\<close> sweeps in a row has failed at least 3 consecutive
  sweeps since its last success, yet its counter has wrapped to \<open>- 2^31\<close> and the sweep
  has set its status to Unstable, not Down.
\<close>

theorem C3_counterexample_counter_wraps:
  "ip (discovery (\<lambda>a p. a = ''10.0.0.5'' \<and> p = 22)
      \<lparr>byte_order = LittleEndian, getnameinfo = \<lambda>a. Some ''box'', hostname_tail = \<lambda>a. [], stack_in_addr = \<lambda>a b. (0, 0)\<rparr>
      ''10.0.0.'' [Run 0, Run 3] ! 0) = ''10.0.0.5'' \<and>
   3 \<le> failed_since_success (map (\<lambda>net. probe_ports net ''10.0.0.5'' COMMON_PORTS)
          (replicate 2147483648 (\<lambda>a p. False))) \<and>
   status (monitor_state (replicate 2147483648 (\<lambda>a p. False))
     (discovery (\<lambda>a p. a = ''10.0.0.5'' \<and> p = 22)
      \<lparr>byte_order = LittleEndian, getnameinfo = \<lambda>a. Some ''box'', hostname_tail = \<lambda>a. [], stack_in_addr = \<lambda>a b. (0, 0)\<rparr>
      ''10.0.0.'' [Run 0, Run 3]) ! 0) = STATUS_UNSTABLE"
proof -
  have d: "discovery (\<lambda>a p. a = ''10.0.0.5'' \<and> p = 22)
      \<lparr>byte_order = LittleEndian, getnameinfo = \<lambda>a. Some ''box'', hostname_tail = \<lambda>a. [], stack_in_addr = \<lambda>a b. (0, 0)\<rparr>
      ''10.0.0.'' [Run 0, Run 3]
     = [\<lparr>ip = ''10.0.0.5'', hostname = ''box'', status = STATUS_UP,
               consecutive_failures = 0, flash_timer = 1\<rparr>,
             \<lparr>ip = ''8.8.8.8'', hostname = ''INTERNET'', status = STATUS_UP,
               consecutive_failures = 0, flash_timer = 1\<rparr>]"
    by code_simp
  have np: "\<not> probe_ports (\<lambda>a p. False) ''10.0.0.5'' COMMON_PORTS"
    by (simp add: COMMON_PORTS_def)
  have f: "failed_since_success (map (\<lambda>net. probe_ports net ''10.0.0.5'' COMMON_PORTS)
          (replicate 2147483648 (\<lambda>a p. False))) = 2147483648"
    by (rule failed_since_success_replicate [OF np])
  have w: "sint (word_of_nat 2147483648 :: 32 word) = - 2147483648" by simp
  have "status (monitor_state (replicate 2147483648 (\<lambda>a p. False)) [\<lparr>ip = ''10.0.0.5'', hostname = ''box'', status = STATUS_UP,
               consecutive_failures = 0, flash_timer = 1\<rparr>,
             \<lparr>ip = ''8.8.8.8'', hostname = ''INTERNET'', status = STATUS_UP,
               consecutive_failures = 0, flash_timer = 1\<rparr>] ! 0)
      = (if 3 \<le> sint (word_of_nat 2147483648 :: 32 word) then STATUS_DOWN else STATUS_UNSTABLE)"
    by (rule monitor_state_all_failed) (simp_all add: COMMON_PORTS_def)
  then have s: "status (monitor_state (replicate 2147483648 (\<lambda>a p. False)) [\<lparr>ip = ''10.0.0.5'', hostname = ''box'', status = STATUS_UP,
               consecutive_failures = 0, flash_timer = 1\<rparr>,
             \<lparr>ip = ''8.8.8.8'', hostname = ''INTERNET'', status = STATUS_UP,
               consecutive_failures = 0, flash_timer = 1\<rparr>] ! 0) = STATUS_UNSTABLE"
    by (simp only: w) simp
  have i: "ip ([\<lparr>ip = ''10.0.0.5'', hostname = ''box'', status = STATUS_UP,
               consecutive_failures = 0, flash_timer = 1\<rparr>,
             \<lparr>ip = ''8.8.8.8'', hostname = ''INTERNET'', status = STATUS_UP,
               consecutive_failures = 0, flash_timer = 1\<rparr>] ! 0) = ''10.0.0.5''" by simp
  show ?thesis
    by (simp only: d f s i) simp
qed

text \<open>
  C3, amended. In every state reached after discovery has completed (the registry it
  produced, in whatever order the sort left it, followed by any number of monitoring
  sweeps), let \<open>n\<close> be the number of consecutive failed sweeps of a host since its last
  successful probe. The failure counter holds \<open>n\<close> as a 32-bit integer. The status is Up
  if and only if \<open>n = 0\<close>; otherwise it is Down when the counter, read as a signed
  integer, is at least 3, and Unstable when it is below 3. As long as \<open>n < 2^31\<close> the
  counter is \<open>n\<close> itself, the status is Down if and only if \<open>n \<ge> 3\<close>, and Unstable if
  and only if \<open>n\<close> is 1 or 2.
\<close>

theorem C3_status_counts_failed_sweeps:
  assumes "mset r = mset (discovery check_port pf active_subnet sched)" and "i < length r"
    and "n = failed_since_success (map (\<lambda>net. probe_ports net (ip (r ! i)) COMMON_PORTS) nets)"
  shows "consecutive_failures (monitor_state nets r ! i) = word_of_nat n \<and>
         (status (monitor_state nets r ! i) = STATUS_UP \<longleftrightarrow> n = 0) \<and>
         (status (monitor_state nets r ! i) = STATUS_DOWN \<longleftrightarrow>
            n \<noteq> 0 \<and> 3 \<le> sint (consecutive_failures (monitor_state nets r ! i))) \<and>
         (status (monitor_state nets r ! i) = STATUS_UNSTABLE \<longleftrightarrow>
            n \<noteq> 0 \<and> sint (consecutive_failures (monitor_state nets r ! i)) < 3) \<and>
         (n < 2147483648 \<longrightarrow>
            sint (consecutive_failures (monitor_state nets r ! i)) = int n \<and>
            (status (monitor_state nets r ! i) = STATUS_DOWN \<longleftrightarrow> 3 \<le> n) \<and>
            (status (monitor_state nets r ! i) = STATUS_UNSTABLE \<longleftrightarrow> n \<in> {1, 2}))"
proof -
  have fresh: "status (r ! i) = STATUS_UP" "consecutive_failures (r ! i) = 0"
    using discovery_fresh [OF assms(1)] assms(2) by simp_all
  have c: "consecutive_failures (monitor_state nets r ! i) = word_of_nat n"
    and s: "status (monitor_state nets r ! i)
           = (if n = 0 then STATUS_UP
              else if 3 \<le> sint (word_of_nat n :: 32 word) then STATUS_DOWN else STATUS_UNSTABLE)"
    using monitor_state_counts [OF assms(2) fresh assms(3)] by simp_all
  have small: "sint (word_of_nat n :: 32 word) = int n" if "n < 2147483648"
    using that by (rule sint_of_nat_small)
  have up: "status (monitor_state nets r ! i) = STATUS_UP \<longleftrightarrow> n = 0"
    by (simp add: s)
  have down: "status (monitor_state nets r ! i) = STATUS_DOWN \<longleftrightarrow>
            n \<noteq> 0 \<and> 3 \<le> sint (consecutive_failures (monitor_state nets r ! i))"
    by (simp add: s c)
  have unstable: "status (monitor_state nets r ! i) = STATUS_UNSTABLE \<longleftrightarrow>
            n \<noteq> 0 \<and> sint (consecutive_failures (monitor_state nets r ! i)) < 3"
    by (simp add: s c)
  have bounded: "sint (consecutive_failures (monitor_state nets r ! i)) = int n \<and>
            (status (monitor_state nets r ! i) = STATUS_DOWN \<longleftrightarrow> 3 \<le> n) \<and>
            (status (monitor_state nets r ! i) = STATUS_UNSTABLE \<longleftrightarrow> n \<in> {1, 2})"
    if "n < 2147483648"
    using small [OF that] by (auto simp add: s c)
  show ?thesis using c up down unstable bounded by blast
qed

theorem C3_status_counts_failed_sweeps_witness:
  "mset [\<lparr>ip = ''10.0.0.5'', hostname = ''box'', status = STATUS_UP,
               consecutive_failures = 0, flash_timer = 1\<rparr>,
             \<lparr>ip = ''8.8.8.8'', hostname = ''INTERNET'', status = STATUS_UP,
               consecutive_failures = 0, flash_timer = 1\<rparr>]
     = mset (discovery (\<lambda>a p. a = ''10.0.0.5'' \<and> p = 22)
      \<lparr>byte_order = LittleEndian, getnameinfo = \<lambda>a. Some ''box'', hostname_tail = \<lambda>a. [], stack_in_addr = \<lambda>a b. (0, 0)\<rparr>
      ''10.0.0.'' [Run 0, Run 3]) \<and>
   (0::nat) < length [\<lparr>ip = ''10.0.0.5'', hostname = ''box'', status = STATUS_UP,
               consecutive_failures = 0, flash_timer = 1\<rparr>,
             \<lparr>ip = ''8.8.8.8'', hostname = ''INTERNET'', status = STATUS_UP,
               consecutive_failures = 0, flash_timer = 1\<rparr>] \<and>
   (3::nat) = failed_since_success (map (\<lambda>net. probe_ports net ''10.0.0.5'' COMMON_PORTS)
      [\<lambda>a p. True, \<lambda>a p. False, \<lambda>a p. False, \<lambda>a p. False]) \<and>
   (3::nat) < 2147483648 \<and>
   status (monitor_state [\<lambda>a p. True, \<lambda>a p. False, \<lambda>a p. False, \<lambda>a p. False]
      [\<lparr>ip = ''10.0.0.5'', hostname = ''box'', status = STATUS_UP,
               consecutive_failures = 0, flash_timer = 1\<rparr>,
             \<lparr>ip = ''8.8.8.8'', hostname = ''INTERNET'', status = STATUS_UP,
               consecutive_failures = 0, flash_timer = 1\<rparr>] ! 0) = STATUS_DOWN \<and>
   consecutive_failures (monitor_state [\<lambda>a p. True, \<lambda>a p. False, \<lambda>a p. False, \<lambda>a p. False]
      [\<lparr>ip = ''10.0.0.5'', hostname = ''box'', status = STATUS_UP,
               consecutive_failures = 0, flash_timer = 1\<rparr>,
             \<lparr>ip = ''8.8.8.8'', hostname = ''INTERNET'', status = STATUS_UP,
               consecutive_failures = 0, flash_timer = 1\<rparr>] ! 0) = 3"
proof -
  have d: "discovery (\<lambda>a p. a = ''10.0.0.5'' \<and> p = 22)
      \<lparr>byte_order = LittleEndian, getnameinfo = \<lambda>a. Some ''box'', hostname_tail = \<lambda>a. [], stack_in_addr = \<lambda>a b. (0, 0)\<rparr>
      ''10.0.0.'' [Run 0, Run 3]
     = [\<lparr>ip = ''10.0.0.5'', hostname = ''box'', status = STATUS_UP,
               consecutive_failures = 0, flash_timer = 1\<rparr>,
             \<lparr>ip = ''8.8.8.8'', hostname = ''INTERNET'', status = STATUS_UP,
               consecutive_failures = 0, flash_timer = 1\<rparr>]"
    by code_simp
  have m: "mset [\<lparr>ip = ''10.0.0.5'', hostname = ''box'', status = STATUS_UP,
               consecutive_failures = 0, flash_timer = 1\<rparr>,
             \<lparr>ip = ''8.8.8.8'', hostname = ''INTERNET'', status = STATUS_UP,
               consecutive_failures = 0, flash_timer = 1\<rparr>]
     = mset (discovery (\<lambda>a p. a = ''10.0.0.5'' \<and> p = 22)
      \<lparr>byte_order = LittleEndian, getnameinfo = \<lambda>a. Some ''box'', hostname_tail = \<lambda>a. [], stack_in_addr = \<lambda>a b. (0, 0)\<rparr>
      ''10.0.0.'' [Run 0, Run 3])"
    by (simp only: d)
  have f: "(3::nat) = failed_since_success (map (\<lambda>net. probe_ports net
      (ip ([\<lparr>ip = ''10.0.0.5'', hostname = ''box'', status = STATUS_UP,
               consecutive_failures = 0, flash_timer = 1\<rparr>,
             \<lparr>ip = ''8.8.8.8'', hostname = ''INTERNET'', status = STATUS_UP,
               consecutive_failures = 0, flash_timer = 1\<rparr>] ! 0)) COMMON_PORTS)
      [\<lambda>a p. True, \<lambda>a p. False, \<lambda>a p. False, \<lambda>a p. False])"
    by (simp add: failed_since_success_def COMMON_PORTS_def)
  have l: "(0::nat) < length [\<lparr>ip = ''10.0.0.5'', hostname = ''box'', status = STATUS_UP,
               consecutive_failures = 0, flash_timer = 1\<rparr>,
             \<lparr>ip = ''8.8.8.8'', hostname = ''INTERNET'', status = STATUS_UP,
               consecutive_failures = 0, flash_timer = 1\<rparr>]" by simp
  show ?thesis
    using m f C3_status_counts_failed_sweeps [OF m l f]
    by simp
qed

section \<open>Uniqueness of addresses\<close>

lemma sched_prefix_distinct:
  "distinct (map ip (discovered_hosts (foldl (sched_step cp pf) (start_workers active) sched)))"
proof -
  let ?Q = "\<lambda>hosts. distinct (map ip hosts) \<and> (\<forall>h\<in>set hosts. length (ip h) \<le> 15)"
  let ?S = "strncpy 16 active"
  have ws0: "\<forall>w\<in>set (workers (start_workers active)). fst w = ?S \<and> set (snd w) \<subseteq> {1..254}"
    by (rule start_workers_ranges)
  have Q0: "?Q (discovered_hosts (start_workers active))"
    by (simp add: start_workers_def)
  have "(\<forall>w\<in>set (workers (foldl (sched_step cp pf) (start_workers active) sched)).
            fst w = ?S \<and> set (snd w) \<subseteq> {1..254}) \<and>
        ?Q (discovered_hosts (foldl (sched_step cp pf) (start_workers active) sched))"
  proof (rule foldl_sched_step_invariant [where Q = ?Q and S = ?S])
    fix hosts :: "MonitoredHost list" and i :: int
    assume "?Q hosts"
    then show "?Q (discovery_step cp pf ?S i hosts)" by (rule discovery_step_distinct)
  qed (rule ws0, rule Q0)
  then show ?thesis by simp
qed

lemma monitor_sweep_ips: "map ip (fst (monitor_sweep net hs)) = map ip hs"
  by (simp add: monitor_sweep_def sweep_from_hosts)

lemma monitor_state_ips: "map ip (monitor_state nets hs) = map ip hs"
  by (induction nets arbitrary: hs) (simp_all add: monitor_sweep_ips)

text \<open>
  C6. For every registry and every address already present in it, \<^verbatim>\<open>add_host_to_list\<close>
  with that address, with or without a hostname override, changes nothing: the registry
  (its length and every field of every entry) is the same afterwards. Hence addresses are
  unique in the registry at all times: after any part of the discovery schedule, and
  when discovery is complete (in whatever order the sort left the registry) and any
  number of monitoring sweeps has run.
\<close>

theorem C6_add_existing_is_noop:
  "(a \<in> ip ` set hosts \<longrightarrow> add_host_to_list pf a hostname_override hosts = hosts) \<and>
   distinct (map ip (discovered_hosts
      (foldl (sched_step check_port pf) (start_workers active_subnet) sched))) \<and>
   (mset r = mset (discovery check_port pf active_subnet sched) \<longrightarrow>
      distinct (map ip (monitor_state nets r)))"
  by (simp add: add_host_to_list_listed sched_prefix_distinct monitor_state_ips discovery_distinct)

theorem C6_add_existing_is_noop_witness:
  "''10.0.0.5'' \<in> ip ` set [\<lparr>ip = ''10.0.0.5'', hostname = ''box'', status = STATUS_DOWN,
               consecutive_failures = 4, flash_timer = 0\<rparr>] \<and>
   add_host_to_list \<lparr>byte_order = LittleEndian, getnameinfo = \<lambda>a. Some ''other'', hostname_tail = \<lambda>a. [], stack_in_addr = \<lambda>a b. (0, 0)\<rparr> ''10.0.0.5'' (Some ''INTERNET'')
       [\<lparr>ip = ''10.0.0.5'', hostname = ''box'', status = STATUS_DOWN,
               consecutive_failures = 4, flash_timer = 0\<rparr>]
     = [\<lparr>ip = ''10.0.0.5'', hostname = ''box'', status = STATUS_DOWN,
               consecutive_failures = 4, flash_timer = 0\<rparr>] \<and>
   mset [\<lparr>ip = ''10.0.0.5'', hostname = ''other'', status = STATUS_UP,
               consecutive_failures = 0, flash_timer = 1\<rparr>,
             \<lparr>ip = ''8.8.8.8'', hostname = ''INTERNET'', status = STATUS_UP,
               consecutive_failures = 0, flash_timer = 1\<rparr>]
     = mset (discovery (\<lambda>a p. a = ''10.0.0.5'' \<and> p = 22)
      \<lparr>byte_order = LittleEndian, getnameinfo = \<lambda>a. Some ''other'', hostname_tail = \<lambda>a. [], stack_in_addr = \<lambda>a b. (0, 0)\<rparr>
      ''10.0.0.'' [Run 0, Run 3]) \<and>
   distinct (map ip (monitor_state [\<lambda>a p. False]
      [\<lparr>ip = ''10.0.0.5'', hostname = ''other'', status = STATUS_UP,
               consecutive_failures = 0, flash_timer = 1\<rparr>,
             \<lparr>ip = ''8.8.8.8'', hostname = ''INTERNET'', status = STATUS_UP,
               consecutive_failures = 0, flash_timer = 1\<rparr>]))"
proof -
  have d: "discovery (\<lambda>a p. a = ''10.0.0.5'' \<and> p = 22)
      \<lparr>byte_order = LittleEndian, getnameinfo = \<lambda>a. Some ''other'', hostname_tail = \<lambda>a. [], stack_in_addr = \<lambda>a b. (0, 0)\<rparr>
      ''10.0.0.'' [Run 0, Run 3]
     = [\<lparr>ip = ''10.0.0.5'', hostname = ''other'', status = STATUS_UP,
               consecutive_failures = 0, flash_timer = 1\<rparr>,
             \<lparr>ip = ''8.8.8.8'', hostname = ''INTERNET'', status = STATUS_UP,
               consecutive_failures = 0, flash_timer = 1\<rparr>]"
    by code_simp
  have m: "mset [\<lparr>ip = ''10.0.0.5'', hostname = ''other'', status = STATUS_UP,
               consecutive_failures = 0, flash_timer = 1\<rparr>,
             \<lparr>ip = ''8.8.8.8'', hostname = ''INTERNET'', status = STATUS_UP,
               consecutive_failures = 0, flash_timer = 1\<rparr>]
     = mset (discovery (\<lambda>a p. a = ''10.0.0.5'' \<and> p = 22)
      \<lparr>byte_order = LittleEndian, getnameinfo = \<lambda>a. Some ''other'', hostname_tail = \<lambda>a. [], stack_in_addr = \<lambda>a b. (0, 0)\<rparr>
      ''10.0.0.'' [Run 0, Run 3])"
    by (simp only: d)
  show ?thesis
    using m C6_add_existing_is_noop [where a = "''10.0.0.5''"
        and hosts = "[\<lparr>ip = ''10.0.0.5'', hostname = ''box'', status = STATUS_DOWN,
               consecutive_failures = 4, flash_timer = 0\<rparr>]"
        and pf = "\<lparr>byte_order = LittleEndian, getnameinfo = \<lambda>a. Some ''other'', hostname_tail = \<lambda>a. [], stack_in_addr = \<lambda>a b. (0, 0)\<rparr>"
        and hostname_override = "Some ''INTERNET''"
        and r = "[\<lparr>ip = ''10.0.0.5'', hostname = ''other'', status = STATUS_UP,
               consecutive_failures = 0, flash_timer = 1\<rparr>,
             \<lparr>ip = ''8.8.8.8'', hostname = ''INTERNET'', status = STATUS_UP,
               consecutive_failures = 0, flash_timer = 1\<rparr>]"
        and check_port = "\<lambda>a p. a = ''10.0.0.5'' \<and> p = 22"
        and active_subnet = "''10.0.0.''" and sched = "[Run 0, Run 3]"
        and nets = "[\<lambda>a p. False]"]
    by simp
qed

section \<open>New entries\<close>

text \<open>
  C7. For every address not already in the registry, \<^verbatim>\<open>add_host_to_list\<close> appends
  exactly one entry; its status is Up, its failure counter 0, its flash timer set; its
  hostname is the override verbatim when one is given (the program's only override is
  \<^verbatim>\<open>INTERNET\<close>; every override shorter than the 255 characters of the copy is stored
  verbatim), and without an override the reverse-DNS name of the address, or \<^verbatim>\<open>N/A\<close>
  when the lookup fails.
\<close>

theorem C7_add_new_entry:
  assumes "a \<notin> ip ` set hosts"
  shows "length (add_host_to_list pf a hostname_override hosts) = Suc (length hosts) \<and>
         butlast (add_host_to_list pf a hostname_override hosts) = hosts \<and>
         ip (last (add_host_to_list pf a hostname_override hosts)) = strncpy 15 a \<and>
         status (last (add_host_to_list pf a hostname_override hosts)) = STATUS_UP \<and>
         consecutive_failures (last (add_host_to_list pf a hostname_override hosts)) = 0 \<and>
         flash_timer (last (add_host_to_list pf a hostname_override hosts)) = 1 \<and>
         hostname (last (add_host_to_list pf a (Some ''INTERNET'') hosts)) = ''INTERNET'' \<and>
         (case hostname_override of
            Some name \<Rightarrow>
              length name < 255 \<longrightarrow>
                hostname (last (add_host_to_list pf a hostname_override hosts)) = name
          | None \<Rightarrow>
              hostname (last (add_host_to_list pf a hostname_override hosts))
                = (case getnameinfo pf a of Some name \<Rightarrow> name | None \<Rightarrow> ''N/A''))"
  using assms
  by (simp add: add_host_to_list_new copy_hostname_def strncpy_def split: option.splits)

theorem C7_add_new_entry_witness:
  "''8.8.8.8'' \<notin> ip ` set [\<lparr>ip = ''10.0.0.5'', hostname = ''box'', status = STATUS_UP,
               consecutive_failures = 0, flash_timer = 1\<rparr>] \<and>
   length ''INTERNET'' < 255 \<and>
   add_host_to_list \<lparr>byte_order = BigEndian, getnameinfo = \<lambda>a. None, hostname_tail = \<lambda>a. [], stack_in_addr = \<lambda>a b. (0, 0)\<rparr> ''8.8.8.8'' (Some ''INTERNET'')
       [\<lparr>ip = ''10.0.0.5'', hostname = ''box'', status = STATUS_UP,
               consecutive_failures = 0, flash_timer = 1\<rparr>]
     = [\<lparr>ip = ''10.0.0.5'', hostname = ''box'', status = STATUS_UP,
               consecutive_failures = 0, flash_timer = 1\<rparr>,
        \<lparr>ip = ''8.8.8.8'', hostname = ''INTERNET'', status = STATUS_UP,
               consecutive_failures = 0, flash_timer = 1\<rparr>] \<and>
   ''10.0.0.9'' \<notin> ip ` set [\<lparr>ip = ''10.0.0.5'', hostname = ''box'', status = STATUS_UP,
               consecutive_failures = 0, flash_timer = 1\<rparr>] \<and>
   hostname (last (add_host_to_list \<lparr>byte_order = BigEndian, getnameinfo = \<lambda>a. None, hostname_tail = \<lambda>a. [], stack_in_addr = \<lambda>a b. (0, 0)\<rparr> ''10.0.0.9'' None
       [\<lparr>ip = ''10.0.0.5'', hostname = ''box'', status = STATUS_UP,
               consecutive_failures = 0, flash_timer = 1\<rparr>])) = ''N/A''"
  using C7_add_new_entry [where a = "''8.8.8.8''"
      and hosts = "[\<lparr>ip = ''10.0.0.5'', hostname = ''box'', status = STATUS_UP,
               consecutive_failures = 0, flash_timer = 1\<rparr>]"
      and pf = "\<lparr>byte_order = BigEndian, getnameinfo = \<lambda>a. None, hostname_tail = \<lambda>a. [], stack_in_addr = \<lambda>a b. (0, 0)\<rparr>"
      and hostname_override = "Some ''INTERNET''"]
    C7_add_new_entry [where a = "''10.0.0.9''"
      and hosts = "[\<lparr>ip = ''10.0.0.5'', hostname = ''box'', status = STATUS_UP,
               consecutive_failures = 0, flash_timer = 1\<rparr>]"
      and pf = "\<lparr>byte_order = BigEndian, getnameinfo = \<lambda>a. None, hostname_tail = \<lambda>a. [], stack_in_addr = \<lambda>a b. (0, 0)\<rparr>"
      and hostname_override = None]
  by (simp add: add_host_to_list_def strncpy_def copy_hostname_def)

section \<open>The sentinel\<close>

lemma filter_unique:
  "distinct (map f xs) \<Longrightarrow> x \<in> f ` set xs \<Longrightarrow> length (filter (\<lambda>h. f h = x) xs) = 1"
proof (induction xs)
  case Nil
  then show ?case by simp
next
  case (Cons y ys)
  show ?case
  proof (cases "f y = x")
    case True
    have "f z \<noteq> x" if "z \<in> set ys" for z
    proof
      assume "f z = x"
      then have "f y \<in> f ` set ys" using that True by (simp add: image_iff) metis
      then show False using Cons.prems(1) by simp
    qed
    then have "filter (\<lambda>h. f h = x) ys = []"
      by (simp add: filter_empty_conv)
    then show ?thesis using True by simp
  next
    case False
    then show ?thesis using Cons by auto
  qed
qed

lemma mset_eq_filter_length:
  assumes "mset xs = mset ys"
  shows "length (filter P xs) = length (filter P ys)"
proof -
  have "mset (filter P xs) = mset (filter P ys)"
    using assms by simp
  then show ?thesis by (rule mset_eq_length)
qed

lemma sentinel_listed:
  "INTERNET_CHECK_IP \<in> ip ` set (add_host_to_list pf INTERNET_CHECK_IP ov hs)"
proof (cases "INTERNET_CHECK_IP \<in> ip ` set hs")
  case True
  then show ?thesis by (simp add: add_host_to_list_listed)
next
  case False
  then show ?thesis by (simp add: add_host_to_list_new) (simp add: INTERNET_CHECK_IP_def)
qed

text \<open>
  C5 as stated fails: when the scanned prefix is \<^verbatim>\<open>8.8.8.\<close> and 8.8.8.8 answers, a worker
  inserts that address under its reverse-DNS name, the insertion of the sentinel is a
  no-op, and the registry has no entry named \<^verbatim>\<open>INTERNET\<close> when discovery is complete.
\<close>

theorem C5_counterexample_sentinel_prefix:
  "discovery (\<lambda>a p. a = ''8.8.8.8'' \<and> p = 443)
      \<lparr>byte_order = LittleEndian, getnameinfo = \<lambda>a. Some ''dns.google'', hostname_tail = \<lambda>a. [], stack_in_addr = \<lambda>a b. (0, 0)\<rparr>
      ''8.8.8.'' []
     = [\<lparr>ip = ''8.8.8.8'', hostname = ''dns.google'', status = STATUS_UP,
               consecutive_failures = 0, flash_timer = 1\<rparr>] \<and>
   length (filter (\<lambda>h. hostname h = ''INTERNET'')
     [\<lparr>ip = ''8.8.8.8'', hostname = ''dns.google'', status = STATUS_UP,
               consecutive_failures = 0, flash_timer = 1\<rparr>]) = 0"
proof -
  have "discovery (\<lambda>a p. a = ''8.8.8.8'' \<and> p = 443)
      \<lparr>byte_order = LittleEndian, getnameinfo = \<lambda>a. Some ''dns.google'', hostname_tail = \<lambda>a. [], stack_in_addr = \<lambda>a b. (0, 0)\<rparr>
      ''8.8.8.'' []
     = [\<lparr>ip = ''8.8.8.8'', hostname = ''dns.google'', status = STATUS_UP,
               consecutive_failures = 0, flash_timer = 1\<rparr>]"
    by code_simp
  then show ?thesis by simp
qed

text \<open>
  C5, amended. After every worker has finished, \<^verbatim>\<open>add_host_to_list\<close> is called for the
  sentinel address 8.8.8.8 with the override \<^verbatim>\<open>INTERNET\<close>, whatever any probe returned;
  the registry at completion is a permutation of the result (in whatever order the sort
  left it), and holds exactly one entry with address 8.8.8.8. When no worker has inserted
  that address and no entry inserted by a worker is named \<^verbatim>\<open>INTERNET\<close>, exactly one
  entry is named \<^verbatim>\<open>INTERNET\<close>, and it is the one with address 8.8.8.8.
\<close>

theorem C5_sentinel_after_discovery:
  assumes "mset r = mset (discovery check_port pf active_subnet sched)"
  shows "mset r = mset (add_host_to_list pf INTERNET_CHECK_IP (Some ''INTERNET'')
                    (workers_done check_port pf active_subnet sched)) \<and>
         length (filter (\<lambda>h. ip h = INTERNET_CHECK_IP) r) = 1 \<and>
         (INTERNET_CHECK_IP \<notin> ip ` set (workers_done check_port pf active_subnet sched) \<and>
          ''INTERNET'' \<notin> hostname ` set (workers_done check_port pf active_subnet sched) \<longrightarrow>
            length (filter (\<lambda>h. hostname h = ''INTERNET'') r) = 1 \<and>
            (\<forall>h\<in>set r. hostname h = ''INTERNET'' \<longleftrightarrow> ip h = INTERNET_CHECK_IP))"
proof -
  let ?W = "workers_done check_port pf active_subnet sched"
  let ?B = "add_host_to_list pf INTERNET_CHECK_IP (Some ''INTERNET'') ?W"
  have perm: "mset r = mset ?B"
    using assms by (simp add: discovery_mset sentinel_added_def)
  have set: "set r = set ?B" using perm by (rule mset_eq_setD)
  have "distinct (map ip r)" using assms by (rule discovery_distinct)
  moreover have "INTERNET_CHECK_IP \<in> ip ` set r" using sentinel_listed by (simp add: set)
  ultimately have one: "length (filter (\<lambda>h. ip h = INTERNET_CHECK_IP) r) = 1"
    by (rule filter_unique)
  have cond: "length (filter (\<lambda>h. hostname h = ''INTERNET'') r) = 1 \<and>
            (\<forall>h\<in>set r. hostname h = ''INTERNET'' \<longleftrightarrow> ip h = INTERNET_CHECK_IP)"
    if no_ip: "INTERNET_CHECK_IP \<notin> ip ` set ?W" and no_name: "''INTERNET'' \<notin> hostname ` set ?W"
  proof -
    have B: "?B = ?W @ [\<lparr>ip = ''8.8.8.8'', hostname = ''INTERNET'', status = STATUS_UP,
                          consecutive_failures = 0, flash_timer = 1\<rparr>]"
      using no_ip by (simp add: add_host_to_list_new)
        (simp add: INTERNET_CHECK_IP_def copy_hostname_def)
    have names: "\<forall>h\<in>set ?W. hostname h \<noteq> ''INTERNET''"
      using no_name by (simp add: image_iff) metis
    have ips: "\<forall>h\<in>set ?W. ip h \<noteq> ''8.8.8.8''"
      using no_ip by (simp add: image_iff INTERNET_CHECK_IP_def) metis
    have none: "filter (\<lambda>h. hostname h = ''INTERNET'') ?W = []"
      using names by (simp add: filter_empty_conv)
    have "length (filter (\<lambda>h. hostname h = ''INTERNET'') ?B) = 1"
      by (simp add: B none)
    then have len: "length (filter (\<lambda>h. hostname h = ''INTERNET'') r) = 1"
      using mset_eq_filter_length [OF perm] by simp
    have "\<forall>h\<in>set ?B. hostname h = ''INTERNET'' \<longleftrightarrow> ip h = INTERNET_CHECK_IP"
      unfolding B using names ips by (auto simp add: INTERNET_CHECK_IP_def)
    then show ?thesis using len by (simp add: set)
  qed
  show ?thesis using perm one cond by blast
qed

lemma workers_done_hostnames:
  assumes "\<And>a. getnameinfo pf a \<noteq> Some ''INTERNET''"
  shows "''INTERNET'' \<notin> hostname ` set (workers_done check_port pf active_subnet sched)"
proof -
  have "\<forall>h\<in>set (workers_done check_port pf active_subnet sched). hostname h \<noteq> ''INTERNET''"
  proof (rule workers_done_invariant [where Q = "\<lambda>hosts. \<forall>h\<in>set hosts. hostname h \<noteq> ''INTERNET''"])
    show "\<forall>h\<in>set []. hostname h \<noteq> ''INTERNET''" by simp
  next
    fix hosts :: "MonitoredHost list" and i :: int
    assume Q: "\<forall>h\<in>set hosts. hostname h \<noteq> ''INTERNET''"
    let ?a = "snprintf_sd 16 (strncpy 16 active_subnet) i"
    have "\<forall>h\<in>set (add_host_to_list pf ?a None hosts). hostname h \<noteq> ''INTERNET''"
      using Q assms [of ?a]
      by (cases "?a \<in> ip ` set hosts")
         (auto simp add: add_host_to_list_listed add_host_to_list_new split: option.splits)
    then show "\<forall>h\<in>set (discovery_step check_port pf (strncpy 16 active_subnet) i hosts).
                 hostname h \<noteq> ''INTERNET''"
      using Q by (simp add: discovery_step_def Let_def)
  qed
  then show ?thesis by auto
qed

lemma workers_done_no_sentinel:
  assumes "\<And>i. 1 \<le> i \<Longrightarrow> i \<le> 254 \<Longrightarrow>
             probe_ports check_port (snprintf_sd 16 (strncpy 16 active_subnet) i) COMMON_PORTS \<Longrightarrow>
             snprintf_sd 16 (strncpy 16 active_subnet) i \<noteq> INTERNET_CHECK_IP"
  shows "INTERNET_CHECK_IP \<notin> ip ` set (workers_done check_port pf active_subnet sched)"
proof -
  have "\<forall>h\<in>set (workers_done check_port pf active_subnet sched). ip h \<noteq> INTERNET_CHECK_IP"
  proof (rule workers_done_invariant [where Q = "\<lambda>hosts. \<forall>h\<in>set hosts. ip h \<noteq> INTERNET_CHECK_IP"])
    show "\<forall>h\<in>set []. ip h \<noteq> INTERNET_CHECK_IP" by simp
  next
    fix hosts :: "MonitoredHost list" and i :: int
    assume Q: "\<forall>h\<in>set hosts. ip h \<noteq> INTERNET_CHECK_IP" and i: "1 \<le> i" "i \<le> 254"
    let ?a = "snprintf_sd 16 (strncpy 16 active_subnet) i"
    show "\<forall>h\<in>set (discovery_step check_port pf (strncpy 16 active_subnet) i hosts).
                 ip h \<noteq> INTERNET_CHECK_IP"
    proof (cases "probe_ports check_port ?a COMMON_PORTS")
      case False
      then show ?thesis using Q by (simp add: discovery_step_def Let_def)
    next
      case True
      have "take 15 ?a = ?a" using snprintf_sd_length [of "strncpy 16 active_subnet" i] by simp
      then have "\<forall>h\<in>set (add_host_to_list pf ?a None hosts). ip h \<noteq> INTERNET_CHECK_IP"
        using Q assms [OF i True]
        by (cases "?a \<in> ip ` set hosts")
           (auto simp add: add_host_to_list_listed add_host_to_list_new)
      then show ?thesis using True by (simp add: discovery_step_def Let_def)
    qed
  qed
  then show ?thesis by auto
qed

theorem C5_sentinel_after_discovery_witness:
  "mset [\<lparr>ip = ''10.0.0.5'', hostname = ''N/A'', status = STATUS_UP,
               consecutive_failures = 0, flash_timer = 1\<rparr>,
             \<lparr>ip = ''8.8.8.8'', hostname = ''INTERNET'', status = STATUS_UP,
               consecutive_failures = 0, flash_timer = 1\<rparr>]
     = mset (discovery (\<lambda>a p. a = ''10.0.0.5'' \<and> p = 22)
         \<lparr>byte_order = BigEndian, getnameinfo = \<lambda>a. None, hostname_tail = \<lambda>a. [], stack_in_addr = \<lambda>a b. (0, 0)\<rparr>
         ''10.0.0.'' [Run 0, Run 3]) \<and>
   INTERNET_CHECK_IP \<notin> ip ` set (workers_done (\<lambda>a p. a = ''10.0.0.5'' \<and> p = 22)
      \<lparr>byte_order = BigEndian, getnameinfo = \<lambda>a. None, hostname_tail = \<lambda>a. [], stack_in_addr = \<lambda>a b. (0, 0)\<rparr>
      ''10.0.0.'' [Run 0, Run 3]) \<and>
   ''INTERNET'' \<notin> hostname ` set (workers_done (\<lambda>a p. a = ''10.0.0.5'' \<and> p = 22)
      \<lparr>byte_order = BigEndian, getnameinfo = \<lambda>a. None, hostname_tail = \<lambda>a. [], stack_in_addr = \<lambda>a b. (0, 0)\<rparr>
      ''10.0.0.'' [Run 0, Run 3]) \<and>
   length (filter (\<lambda>h. hostname h = ''INTERNET'')
     [\<lparr>ip = ''10.0.0.5'', hostname = ''N/A'', status = STATUS_UP,
               consecutive_failures = 0, flash_timer = 1\<rparr>,
             \<lparr>ip = ''8.8.8.8'', hostname = ''INTERNET'', status = STATUS_UP,
               consecutive_failures = 0, flash_timer = 1\<rparr>]) = 1 \<and>
   length (filter (\<lambda>h. ip h = INTERNET_CHECK_IP)
     [\<lparr>ip = ''10.0.0.5'', hostname = ''N/A'', status = STATUS_UP,
               consecutive_failures = 0, flash_timer = 1\<rparr>,
             \<lparr>ip = ''8.8.8.8'', hostname = ''INTERNET'', status = STATUS_UP,
               consecutive_failures = 0, flash_timer = 1\<rparr>]) = 1"
proof -
  have d: "discovery (\<lambda>a p. a = ''10.0.0.5'' \<and> p = 22)
         \<lparr>byte_order = BigEndian, getnameinfo = \<lambda>a. None, hostname_tail = \<lambda>a. [], stack_in_addr = \<lambda>a b. (0, 0)\<rparr>
         ''10.0.0.'' [Run 0, Run 3]
     = [\<lparr>ip = ''10.0.0.5'', hostname = ''N/A'', status = STATUS_UP,
               consecutive_failures = 0, flash_timer = 1\<rparr>,
             \<lparr>ip = ''8.8.8.8'', hostname = ''INTERNET'', status = STATUS_UP,
               consecutive_failures = 0, flash_timer = 1\<rparr>]"
    by code_simp
  have m: "mset [\<lparr>ip = ''10.0.0.5'', hostname = ''N/A'', status = STATUS_UP,
               consecutive_failures = 0, flash_timer = 1\<rparr>,
             \<lparr>ip = ''8.8.8.8'', hostname = ''INTERNET'', status = STATUS_UP,
               consecutive_failures = 0, flash_timer = 1\<rparr>]
     = mset (discovery (\<lambda>a p. a = ''10.0.0.5'' \<and> p = 22)
         \<lparr>byte_order = BigEndian, getnameinfo = \<lambda>a. None, hostname_tail = \<lambda>a. [], stack_in_addr = \<lambda>a b. (0, 0)\<rparr>
         ''10.0.0.'' [Run 0, Run 3])"
    by (simp only: d)
  have w: "workers_done (\<lambda>a p. a = ''10.0.0.5'' \<and> p = 22)
      \<lparr>byte_order = BigEndian, getnameinfo = \<lambda>a. None, hostname_tail = \<lambda>a. [], stack_in_addr = \<lambda>a b. (0, 0)\<rparr>
      ''10.0.0.'' [Run 0, Run 3]
     = [\<lparr>ip = ''10.0.0.5'', hostname = ''N/A'', status = STATUS_UP,
               consecutive_failures = 0, flash_timer = 1\<rparr>]"
    by code_simp
  show ?thesis
    using m C5_sentinel_after_discovery [OF m]
    by (simp add: w INTERNET_CHECK_IP_def)
qed

section \<open>The split of the host range\<close>

lemma thread_args_start: "start_host (thread_args s i) = 1 + 5 * int i"
  by (simp add: thread_args_def hosts_per_thread_eq START_HOST_def)

lemma thread_args_end:
  "end_host (thread_args s i) = (if i = 49 then 254 else 5 + 5 * int i)"
  by (simp add: thread_args_def hosts_per_thread_eq START_HOST_def END_HOST_def NUM_THREADS_def)

lemma worker_hosts_set:
  "set (worker_hosts (thread_args s i)) = {1 + 5 * int i..(if i = 49 then 254 else 5 + 5 * int i)}"
  by (simp add: worker_hosts_def thread_args_start thread_args_end)

lemma worker_hosts_length:
  "i < 50 \<Longrightarrow> length (worker_hosts (thread_args s i)) = (if i = 49 then 9 else 5)"
  by (simp add: worker_hosts_def thread_args_start thread_args_end)

lemma worker_hosts_disjoint:
  assumes "i < 50" and "j < 50" and "i \<noteq> j"
  shows "set (worker_hosts (thread_args s i)) \<inter> set (worker_hosts (thread_args s j)) = {}"
proof -
  have "i < j \<or> j < i" using assms(3) by arith
  then show ?thesis
    using assms(1,2) by (auto simp add: worker_hosts_set split: if_splits)
qed

lemma worker_hosts_cover:
  "(\<Union>i<50. set (worker_hosts (thread_args s i))) = {1..254}"
proof (intro set_eqI iffI)
  fix x :: int
  assume "x \<in> (\<Union>i<50. set (worker_hosts (thread_args s i)))"
  then obtain i where "i < 50" and "x \<in> set (worker_hosts (thread_args s i))" by auto
  then show "x \<in> {1..254}" by (auto simp add: worker_hosts_set split: if_splits)
next
  fix x :: int
  assume x: "x \<in> {1..254}"
  define i where "i = (if x \<ge> 246 then 49 else nat ((x - 1) div 5))"
  have "i < 50" using x by (auto simp add: i_def)
  moreover have "x \<in> set (worker_hosts (thread_args s i))"
    using x by (auto simp add: worker_hosts_set i_def)
  ultimately show "x \<in> (\<Union>i<50. set (worker_hosts (thread_args s i)))" by auto
qed

text \<open>
  C8. The host numbers 1 to 254 are split across the 50 workers into contiguous ranges:
  worker \<open>i\<close> visits \<open>start_host\<close> to \<open>end_host\<close> of its arguments, the first range
  starts at 1, each next range starts right after the previous one ends, the last ends
  at 254; the first 49 workers get 5 host numbers each and the last one the remaining 9.
  The 50 ranges are pairwise disjoint and their union is exactly 1 to 254.
\<close>

theorem C8_worker_ranges_partition:
  "map snd (workers (start_workers s)) = map (\<lambda>i. worker_hosts (thread_args s i)) [0..<50] \<and>
   (\<forall>i<50. worker_hosts (thread_args s i) = [start_host (thread_args s i)..end_host (thread_args s i)]) \<and>
   start_host (thread_args s 0) = START_HOST \<and>
   (\<forall>i<49. start_host (thread_args s (Suc i)) = end_host (thread_args s i) + 1) \<and>
   end_host (thread_args s 49) = END_HOST \<and>
   (\<forall>i<49. length (worker_hosts (thread_args s i)) = 5) \<and>
   length (worker_hosts (thread_args s 49)) = 9 \<and>
   (\<forall>i<50. \<forall>j<50. i \<noteq> j \<longrightarrow>
      set (worker_hosts (thread_args s i)) \<inter> set (worker_hosts (thread_args s j)) = {}) \<and>
   (\<Union>i<50. set (worker_hosts (thread_args s i))) = {START_HOST..END_HOST}"
proof (intro conjI)
  show "map snd (workers (start_workers s)) = map (\<lambda>i. worker_hosts (thread_args s i)) [0..<50]"
    by (simp add: start_workers_def NUM_THREADS_def comp_def del: upt_rec_numeral)
  show "\<forall>i<50. worker_hosts (thread_args s i) = [start_host (thread_args s i)..end_host (thread_args s i)]"
    by (simp add: worker_hosts_def)
  show "start_host (thread_args s 0) = START_HOST"
    by (simp add: thread_args_start START_HOST_def)
  show "\<forall>i<49. start_host (thread_args s (Suc i)) = end_host (thread_args s i) + 1"
    by (simp add: thread_args_start thread_args_end)
  show "end_host (thread_args s 49) = END_HOST"
    by (simp add: thread_args_end END_HOST_def)
  show "\<forall>i<49. length (worker_hosts (thread_args s i)) = 5"
    by (simp add: worker_hosts_length)
  show "length (worker_hosts (thread_args s 49)) = 9"
    by (simp add: worker_hosts_length)
  show "\<forall>i<50. \<forall>j<50. i \<noteq> j \<longrightarrow>
      set (worker_hosts (thread_args s i)) \<inter> set (worker_hosts (thread_args s j)) = {}"
    by (simp add: worker_hosts_disjoint)
  show "(\<Union>i<50. set (worker_hosts (thread_args s i))) = {START_HOST..END_HOST}"
    by (simp only: worker_hosts_cover START_HOST_def END_HOST_def)
qed

theorem C8_worker_ranges_partition_witness:
  "(0::nat) < 50 \<and> (49::nat) < 50 \<and> (0::nat) \<noteq> 49 \<and> (48::nat) < 49 \<and>
   set (worker_hosts (thread_args ''10.0.0.'' 0)) \<inter> set (worker_hosts (thread_args ''10.0.0.'' 49)) = {} \<and>
   worker_hosts (thread_args ''10.0.0.'' 0) = [1, 2, 3, 4, 5] \<and>
   worker_hosts (thread_args ''10.0.0.'' 48) = [241, 242, 243, 244, 245] \<and>
   worker_hosts (thread_args ''10.0.0.'' 49) = [246, 247, 248, 249, 250, 251, 252, 253, 254] \<and>
   start_host (thread_args ''10.0.0.'' (Suc 48)) = end_host (thread_args ''10.0.0.'' 48) + 1 \<and>
   length (worker_hosts (thread_args ''10.0.0.'' 48)) = 5"
proof -
  have w0: "worker_hosts (thread_args ''10.0.0.'' 0) = [1, 2, 3, 4, 5]" by code_simp
  have w48: "worker_hosts (thread_args ''10.0.0.'' 48) = [241, 242, 243, 244, 245]" by code_simp
  have w49: "worker_hosts (thread_args ''10.0.0.'' 49) = [246, 247, 248, 249, 250, 251, 252, 253, 254]"
    by code_simp
  show ?thesis
    using C8_worker_ranges_partition [of "''10.0.0.''"]
    by (simp add: w0 w48 w49 thread_args_start thread_args_end)
qed

section \<open>The subnet argument\<close>

text \<open>
  C9. A subnet argument given on the command line is accepted if and only if it is not
  empty, shorter than 16 characters and ends in a dot. Every other argument makes
  \<open>main\<close> return 1 after printing the complaint and nothing else: no initialisation, no
  network thread. An accepted argument is copied unchanged into \<^verbatim>\<open>active_subnet\<close>,
  the network thread is started with it (when initialisation succeeds), and it is the
  prefix that is scanned, whatever subnet detection would find.
\<close>

theorem C9_subnet_argument:
  assumes "length argv > 1"
  shows "(argv ! 1 \<noteq> [] \<and> length (argv ! 1) < 16 \<and> last (argv ! 1) = CHR ''.'' \<longrightarrow>
            main argv init_ok thread_ok
              = main_after_args [Printf_using_subnet (argv ! 1)] (argv ! 1) init_ok thread_ok \<and>
            (init_ok \<and> thread_ok \<longrightarrow>
               main argv init_ok thread_ok
                 = ([Printf_using_subnet (argv ! 1), Init_sdl_load_media,
                     Network_thread_started (argv ! 1)], Running (argv ! 1))) \<and>
            scanned_subnet (argv ! 1) detected = argv ! 1) \<and>
         (\<not> (argv ! 1 \<noteq> [] \<and> length (argv ! 1) < 16 \<and> last (argv ! 1) = CHR ''.'') \<longrightarrow>
            main argv init_ok thread_ok = ([Printf_invalid_subnet (argv ! 1)], Exit 1))"
proof -
  have last: "(argv ! 1) ! (length (argv ! 1) - 1) = last (argv ! 1)" if "argv ! 1 \<noteq> []"
    using that by (simp add: last_conv_nth)
  show ?thesis
  proof (cases "argv ! 1 = []")
    case True
    then show ?thesis using assms by (simp add: main_def)
  next
    case False
    then show ?thesis
      using assms last [OF False]
      by (auto simp add: main_def Let_def strncpy_def main_after_args_def scanned_subnet_def)
  qed
qed

theorem C9_subnet_argument_witness:
  "length [''netmonitor'', ''192.168.1.''] > 1 \<and>
   main [''netmonitor'', ''192.168.1.''] True True
     = ([Printf_using_subnet ''192.168.1.'', Init_sdl_load_media,
         Network_thread_started ''192.168.1.''], Running ''192.168.1.'') \<and>
   scanned_subnet ''192.168.1.'' (Some ''10.0.0.'') = ''192.168.1.'' \<and>
   length [''netmonitor'', ''abc''] > 1 \<and>
   main [''netmonitor'', ''abc''] True True = ([Printf_invalid_subnet ''abc''], Exit 1)"
  using C9_subnet_argument [of "[''netmonitor'', ''192.168.1.'']" True True "Some ''10.0.0.''"]
    C9_subnet_argument [of "[''netmonitor'', ''abc'']" True True None]
  by (simp add: main_after_args_def)

section \<open>Candidate addresses\<close>

lemma dec_digits_small: "n < 10 \<Longrightarrow> dec_digits n = [digit_char n]"
  by (subst dec_digits.simps) simp

lemma dec_digits_large:
  "10 \<le> n \<Longrightarrow> dec_digits n = dec_digits (n div 10) @ [digit_char (n mod 10)]"
  by (subst dec_digits.simps) simp

lemma dec_digits_length:
  assumes "n < 1000"
  shows "length (dec_digits n) = (if n < 10 then 1 else if n < 100 then 2 else 3)"
proof -
  consider "n < 10" | "10 \<le> n" "n < 100" | "100 \<le> n" by arith
  then show ?thesis
  proof cases
    case 1
    then show ?thesis by (simp add: dec_digits_small)
  next
    case 2
    then have "n div 10 < 10" by simp
    then show ?thesis using 2 by (simp add: dec_digits_large dec_digits_small)
  next
    case 3
    then have a: "10 \<le> n div 10" and b: "n div 10 div 10 < 10" using assms by simp_all
    have "length (dec_digits (n div 10)) = 2"
      using a b by (simp only: dec_digits_large [OF a] dec_digits_small [OF b]) simp
    then show ?thesis using 3 by (simp add: dec_digits_large)
  qed
qed

lemma format_d_length:
  "0 \<le> i \<Longrightarrow> i < 1000 \<Longrightarrow> length (format_d i) = (if i < 10 then 1 else if i < 100 then 2 else 3)"
  using dec_digits_length [of "nat i"] by (auto simp add: format_d_def)

lemma format_d_10: "format_d 10 = ''10''"
  by code_simp

lemma format_d_100: "format_d 100 = ''100''"
  by code_simp

text \<open>
  C10. A discovery worker probes the address that \<^verbatim>\<open>snprintf\<close> leaves in a 16-byte
  buffer: the first 15 characters of the prefix followed by the decimal host number,
  which is the prefix followed by the number exactly when the two fit in 15 characters.
  They do for a prefix of at most 12 characters and a host number from 1 to 254. A
  prefix of 13 to 15 characters ending in a dot is accepted by \<open>main\<close>, and for such a
  prefix the address is cut: host numbers 10 and 100 give the same address, and for every
  host number from 100 to 254 the address probed is not the intended one, nor is the
  intended one probed for any other host number.
\<close>

theorem C10_candidate_address:
  "snprintf_sd 16 prefix n = take 15 (prefix @ format_d n) \<and>
   discovery_step check_port pf prefix n hosts =
     (if probe_ports check_port (snprintf_sd 16 prefix n) COMMON_PORTS
      then add_host_to_list pf (snprintf_sd 16 prefix n) None hosts else hosts) \<and>
   (snprintf_sd 16 prefix n = prefix @ format_d n \<longleftrightarrow> length prefix + length (format_d n) \<le> 15) \<and>
   (length prefix \<le> 12 \<and> 1 \<le> n \<and> n \<le> 254 \<longrightarrow> snprintf_sd 16 prefix n = prefix @ format_d n) \<and>
   (13 \<le> length prefix \<and> length prefix \<le> 15 \<longrightarrow>
      (last prefix = CHR ''.'' \<longrightarrow>
         snd (main [program, prefix] True True) = Running prefix) \<and>
      snprintf_sd 16 prefix 10 = snprintf_sd 16 prefix 100 \<and>
      (100 \<le> n \<and> n \<le> 254 \<longrightarrow>
         snprintf_sd 16 prefix n \<noteq> prefix @ format_d n \<and>
         (\<forall>k. snprintf_sd 16 prefix k \<noteq> prefix @ format_d n)))"
proof -
  have take: "snprintf_sd 16 prefix n = take 15 (prefix @ format_d n)"
    by (simp add: snprintf_sd_def)
  have step: "discovery_step check_port pf prefix n hosts =
     (if probe_ports check_port (snprintf_sd 16 prefix n) COMMON_PORTS
      then add_host_to_list pf (snprintf_sd 16 prefix n) None hosts else hosts)"
    by (simp add: discovery_step_def Let_def)
  have fits: "snprintf_sd 16 prefix n = prefix @ format_d n \<longleftrightarrow>
      length prefix + length (format_d n) \<le> 15"
  proof
    assume "snprintf_sd 16 prefix n = prefix @ format_d n"
    then have "length (take 15 (prefix @ format_d n)) = length (prefix @ format_d n)"
      by (simp add: snprintf_sd_def)
    then show "length prefix + length (format_d n) \<le> 15" by simp
  next
    assume "length prefix + length (format_d n) \<le> 15"
    then show "snprintf_sd 16 prefix n = prefix @ format_d n"
      by (simp add: snprintf_sd_def)
  qed
  have whole: "snprintf_sd 16 prefix n = prefix @ format_d n"
    if "length prefix \<le> 12 \<and> 1 \<le> n \<and> n \<le> 254"
    using that format_d_length [of n] by (simp add: fits split: if_splits)
  have accepted: "snd (main [program, prefix] True True) = Running prefix"
    if "13 \<le> length prefix \<and> length prefix \<le> 15" and "last prefix = CHR ''.''"
  proof -
    have ne: "prefix \<noteq> []" using that(1) by auto
    then have "prefix ! (length prefix - 1) = CHR ''.''"
      using that(2) by (simp add: last_conv_nth)
    then show ?thesis
      using that(1) ne by (simp add: main_def main_after_args_def strncpy_def)
  qed
  have same: "snprintf_sd 16 prefix 10 = snprintf_sd 16 prefix 100"
    if "13 \<le> length prefix \<and> length prefix \<le> 15"
  proof -
    have "length prefix = 13 \<or> length prefix = 14 \<or> length prefix = 15" using that by arith
    then show ?thesis by (auto simp add: snprintf_sd_def format_d_10 format_d_100)
  qed
  have never: "snprintf_sd 16 prefix k \<noteq> prefix @ format_d n"
    if "13 \<le> length prefix \<and> length prefix \<le> 15" and "100 \<le> n \<and> n \<le> 254" for k
  proof
    assume eq: "snprintf_sd 16 prefix k = prefix @ format_d n"
    have "length (prefix @ format_d n) > 15"
      using that format_d_length [of n] by simp
    moreover have "length (snprintf_sd 16 prefix k) \<le> 15"
      by (simp add: snprintf_sd_def)
    ultimately show False using eq by simp
  qed
  show ?thesis
    using take step fits whole accepted same never by blast
qed

theorem C10_candidate_address_witness:
  "length ''192.168.100.'' \<le> 12 \<and> (1::int) \<le> 254 \<and>
   snprintf_sd 16 ''192.168.100.'' 254 = ''192.168.100.254'' \<and>
   13 \<le> length ''1234.5678.910.'' \<and> length ''1234.5678.910.'' \<le> 15 \<and> (100::int) \<le> 254 \<and>
   last ''1234.5678.910.'' = CHR ''.'' \<and>
   snd (main [''netmonitor'', ''1234.5678.910.''] True True) = Running ''1234.5678.910.'' \<and>
   snprintf_sd 16 ''1234.5678.910.'' 10 = ''1234.5678.910.1'' \<and>
   snprintf_sd 16 ''1234.5678.910.'' 100 = ''1234.5678.910.1'' \<and>
   snprintf_sd 16 ''1234.5678.910.'' 254 = ''1234.5678.910.2'' \<and>
   ''1234.5678.910.'' @ format_d 254 = ''1234.5678.910.254''"
proof -
  have a: "snprintf_sd 16 ''192.168.100.'' 254 = ''192.168.100.254''" by code_simp
  have b: "snprintf_sd 16 ''1234.5678.910.'' 10 = ''1234.5678.910.1''" by code_simp
  have c: "snprintf_sd 16 ''1234.5678.910.'' 254 = ''1234.5678.910.2''" by code_simp
  have d: "''1234.5678.910.'' @ format_d 254 = ''1234.5678.910.254''" by code_simp
  show ?thesis
    using C10_candidate_address [where prefix = "''192.168.100.''" and n = 254]
      C10_candidate_address [where prefix = "''1234.5678.910.''" and n = 254
        and program = "''netmonitor''"] a b c d
    by simp
qed

section \<open>Sorting the registry\<close>











subsection \<open>Addresses built from one prefix\<close>













subsection \<open>The registry that is sorted\<close>




text \<open>
  Outside the program's registry the comparison does not follow the numeric value on a
  little-endian machine: of 1.0.0.2 and 2.0.0.1 it puts the second first. No prefix
  followed by a host number gives both addresses, so the program never compares them.
\<close>

lemma compare_hosts_little_endian:
  "compare_hosts \<lparr>byte_order = LittleEndian, getnameinfo = \<lambda>a. None, hostname_tail = \<lambda>a. [], stack_in_addr = \<lambda>a b. (0, 0)\<rparr>
     \<lparr>ip = ''1.0.0.2'', hostname = ''a'', status = STATUS_UP, consecutive_failures = 0, flash_timer = 1\<rparr>
     \<lparr>ip = ''2.0.0.1'', hostname = ''b'', status = STATUS_UP, consecutive_failures = 0, flash_timer = 1\<rparr>
   = 1 \<and>
   ip_value ''1.0.0.2'' = Some 16777218 \<and> ip_value ''2.0.0.1'' = Some 33554433"
proof -
  have p1: "inet_pton ''1.0.0.2'' = Some [1, 0, 0, 2]" by code_simp
  have p2: "inet_pton ''2.0.0.1'' = Some [2, 0, 0, 1]" by code_simp
  show ?thesis
    by (simp add: compare_hosts_def ip_value_def p1 p2)
qed



end
